theory Spec2Isabelle
  imports Main
begin

section \<open>Python strings\<close>

text \<open>
  A Python \<open>str\<close> is modelled as a \<open>string\<close>; one \<open>char\<close> stands for one character of
  the source string, so \<open>length\<close> is Python's \<open>len\<close>.
\<close>

definition startswith :: "string \<Rightarrow> string \<Rightarrow> bool" where
  \<comment> \<open>\<open>s.startswith(p)\<close>\<close>
  "startswith s p = (take (length p) s = p)"

definition strip :: "string \<Rightarrow> string \<Rightarrow> string" where
  \<comment> \<open>\<open>s.strip(chars)\<close>: drops the leading and the trailing characters that occur in \<open>chars\<close>\<close>
  "strip s chars =
     rev (dropWhile (\<lambda>c. c \<in> set chars) (rev (dropWhile (\<lambda>c. c \<in> set chars) s)))"

function replace :: "string \<Rightarrow> string \<Rightarrow> string \<Rightarrow> string" where
  \<comment> \<open>\<open>s.replace(old, new)\<close>: every non-overlapping occurrence, leftmost first\<close>
  "replace s old new =
     (if old = [] then new @ concat (map (\<lambda>c. c # new) s)
      else (case s of
              [] \<Rightarrow> []
            | c # cs \<Rightarrow>
                if startswith s old then new @ replace (drop (length old) s) old new
                else c # replace cs old new))"
  by pat_completeness auto
termination
  by (relation "measure (\<lambda>(s, old, new). length s)") auto

declare replace.simps [simp del]

definition digit_chars :: string where
  "digit_chars = ''0123456789''"

fun str_nat :: "nat \<Rightarrow> string" where
  \<comment> \<open>the decimal digits of a natural number\<close>
  "str_nat n =
     (if n < 10 then [digit_chars ! n] else str_nat (n div 10) @ [digit_chars ! (n mod 10)])"

declare str_nat.simps [simp del]

definition str_int :: "int \<Rightarrow> string" where
  \<comment> \<open>\<open>str(i)\<close> of a Python int, as an f-string formats it\<close>
  "str_int i = (if i < 0 then CHR ''-'' # str_nat (nat (- i)) else str_nat (nat i))"

definition os_path_join :: "string \<Rightarrow> string \<Rightarrow> string" where
  \<comment> \<open>\<open>os.path.join(a, b)\<close> on a POSIX system\<close>
  "os_path_join a b =
     (if startswith b ''/'' then b
      else if a = [] \<or> last a = CHR ''/'' then a @ b
      else a @ ''/'' @ b)"

section \<open>The file-sync utility: \<open>copy_file\<close> of \<open>Docs/_populate_essentials.py\<close>\<close>

datatype os_error = FileNotFoundError | OtherOSError

text \<open>
  The operating system as \<open>copy_file\<close> sees it: each call it makes is a field, and an
  \<open>OSError\<close> a call raises is a value. \<open>copy_file\<close> makes each call at most once, so the
  answers need no state.
\<close>

record os_calls =
  path_exists :: "string \<Rightarrow> bool"  \<comment> \<open>\<open>os.path.exists(path)\<close>\<close>
  listdir :: "string \<Rightarrow> os_error + string list"  \<comment> \<open>\<open>os.listdir(dir)\<close>, in the order it lists\<close>
  copy2 :: "string \<Rightarrow> string \<Rightarrow> os_error option"  \<comment> \<open>\<open>shutil.copy2(src, dst)\<close>: the error raised, if any\<close>

text \<open>
  The result of \<open>copy_file\<close>: the exception that left it or the pair it returned, and the
  copies \<open>(src, dst)\<close> it made.
\<close>

type_synonym copy_result = "(os_error + (string option \<times> string option)) \<times> (string \<times> string) list"

definition copy_file :: "os_calls \<Rightarrow> string \<Rightarrow> string \<Rightarrow> string \<Rightarrow> copy_result" where
  "copy_file os raw_dir dest_dir target_name =
     (let src_exact = os_path_join raw_dir target_name in
      if path_exists os src_exact then
        (let dest_path = os_path_join dest_dir target_name in
         case copy2 os src_exact dest_path of
           Some e \<Rightarrow> (Inl e, [])
         | None \<Rightarrow> (Inr (Some target_name, None), [(src_exact, dest_path)]))
      else
        (let base = take (length target_name - 5) target_name in
         case listdir os raw_dir of
           Inl FileNotFoundError \<Rightarrow> (Inr (None, Some target_name), [])
         | Inl e \<Rightarrow> (Inl e, [])
         | Inr names \<Rightarrow>
             (let candidates = filter (\<lambda>name. startswith name base) names in
              if candidates \<noteq> [] then
                (let chosen = hd (sort_key length candidates);
                     src_path = os_path_join raw_dir chosen;
                     dest_path = os_path_join dest_dir chosen in
                 case copy2 os src_path dest_path of
                   Some e \<Rightarrow> (Inl e, [])
                 | None \<Rightarrow> (Inr (Some chosen, None), [(src_path, dest_path)]))
              else (Inr (None, Some target_name), []))))"

section \<open>The crawler: \<open>fetch_module\<close> of \<open>Docs/fetch_module_docs.py\<close>\<close>

subsection \<open>JSON values\<close>

text \<open>
  What \<open>json.load\<close> returns: \<open>JObj\<close> is a Python \<open>dict\<close>, its items in insertion order and
  its keys distinct; \<open>JArr\<close> a \<open>list\<close>; \<open>JNull\<close> is \<open>None\<close>. A number is kept as an
  integer: the crawler observes of a number only whether it is zero.
\<close>

datatype json =
    JNull
  | JBool bool
  | JNum int
  | JStr string
  | JArr "json list"
  | JObj "(string \<times> json) list"

fun truthy :: "json \<Rightarrow> bool" where
  \<comment> \<open>Python's truth value, as \<open>x or y\<close> tests it\<close>
  "truthy JNull = False"
| "truthy (JBool b) = b"
| "truthy (JNum n) = (n \<noteq> 0)"
| "truthy (JStr s) = (s \<noteq> [])"
| "truthy (JArr xs) = (xs \<noteq> [])"
| "truthy (JObj kvs) = (kvs \<noteq> [])"

definition dict_get :: "(string \<times> json) list \<Rightarrow> string \<Rightarrow> json \<Rightarrow> json" where
  \<comment> \<open>\<open>d.get(key, dflt)\<close>\<close>
  "dict_get d key dflt = (case map_of d key of None \<Rightarrow> dflt | Some v \<Rightarrow> v)"

subsection \<open>The world outside\<close>

datatype fetch_result =
    Response json  \<comment> \<open>\<open>urlopen\<close> and \<open>json.load\<close> succeeded\<close>
  | HTTPError int  \<comment> \<open>\<open>urllib.error.HTTPError\<close> with its \<open>code\<close>\<close>
  | Failure string  \<comment> \<open>any other \<open>Exception\<close>, with its \<open>str\<close>\<close>

text \<open>
  What \<open>fetch_module\<close> calls outside itself. The answer of the remote service is a function
  of the URL (a run opens no URL twice, see \<open>crawl_inv\<close>), and whether \<open>open\<close> or
  \<open>json.dump\<close> raises is taken to depend on the file only.
\<close>

record world =
  urlopen :: "string \<Rightarrow> fetch_result"  \<comment> \<open>\<open>urlopen(url)\<close> and \<open>json.load\<close> of the response\<close>
  makedirs_fails :: "string \<Rightarrow> bool"  \<comment> \<open>\<open>os.makedirs(dir, exist_ok=True)\<close> raises\<close>
  open_fails :: "string \<Rightarrow> bool"  \<comment> \<open>\<open>open(path, "w")\<close> raises: no file is made\<close>
  dump_fails :: "string \<Rightarrow> bool"  \<comment> \<open>\<open>json.dump\<close> into the open file raises\<close>

text \<open>
  The exceptions that leave \<open>fetch_module\<close>, and the values a Python function returns that
  the properties below speak of.
\<close>

datatype crawl_error = OSError | AttributeError

datatype pyvalue = PyNone | PyInt int | PyTuple "pyvalue list"

subsection \<open>State and one iteration\<close>

text \<open>
  \<open>queue\<close> and \<open>visited\<close> are the two variables of \<open>fetch_module\<close>. The other three fields
  record its effects in order: the paths whose URL it opened, the files it opened for
  writing (path and what the file holds when it is closed) and the lines it printed.
\<close>

datatype contents =
    Document json  \<comment> \<open>\<open>json.dump\<close> wrote the whole document\<close>
  | Partial  \<comment> \<open>\<open>open\<close> made or emptied the file and \<open>json.dump\<close> raised before its end\<close>

record crawl_state =
  queue :: "string list"
  visited :: "string set"
  fetched :: "string list"
  written :: "(string \<times> contents) list"
  printed :: "string list"

definition BASE_URL :: string where
  "BASE_URL = ''https://developer.apple.com/tutorials/data''"

definition enqueue_ref :: "string \<Rightarrow> string list \<Rightarrow> json \<Rightarrow> string list" where
  \<comment> \<open>the body of \<open>for ref in references.values()\<close>\<close>
  "enqueue_ref module q ref =
     (case ref of
        JObj entries \<Rightarrow>
          (let got = dict_get entries ''url'' JNull;
               ref_url = (if truthy got then got else JStr []) in
           case ref_url of
             JStr u \<Rightarrow>
               if startswith u (''/documentation/'' @ module) then q @ [strip u ''/''] else q
           | _ \<Rightarrow> q)
      | _ \<Rightarrow> q)"

definition enqueue_references :: "string \<Rightarrow> json \<Rightarrow> string list \<Rightarrow> crawl_error + string list" where
  \<comment> \<open>\<open>data.get("references", {})\<close> and the loop over its values; a value without the
      method called on it raises \<open>AttributeError\<close>\<close>
  "enqueue_references module data q =
     (case data of
        JObj items \<Rightarrow>
          (case dict_get items ''references'' (JObj []) of
             JObj references \<Rightarrow> Inr (foldl (enqueue_ref module) q (map snd references))
           | _ \<Rightarrow> Inl AttributeError)
      | _ \<Rightarrow> Inl AttributeError)"

datatype step = Continue crawl_state | Break crawl_state | Raise crawl_error crawl_state

definition loop_body ::
  "world \<Rightarrow> string \<Rightarrow> string \<Rightarrow> int option \<Rightarrow> string \<Rightarrow> crawl_state \<Rightarrow> step" where
  \<comment> \<open>the body of \<open>while queue\<close>, after \<open>path = queue.pop(0)\<close>\<close>
  "loop_body w module dest_root limit path s =
     (if path \<in> visited s then Continue s
      else
        (let s = s\<lparr>visited := insert path (visited s)\<rparr> in
         if (case limit of None \<Rightarrow> False | Some l \<Rightarrow> int (card (visited s)) > l) then
           Break (s\<lparr>printed := printed s @
             [''Reached limit ('' @ str_int (the limit) @ '') for '' @ module @ ''; stopping.'']\<rparr>)
         else
           (let url = BASE_URL @ ''/'' @ path @ ''.json'';
                s = s\<lparr>fetched := fetched s @ [path]\<rparr> in
            case urlopen w url of
              HTTPError code \<Rightarrow>
                Continue (s\<lparr>printed := printed s @ [''HTTPError '' @ str_int code @ '' '' @ url]\<rparr>)
            | Failure exc \<Rightarrow>
                Continue (s\<lparr>printed := printed s @ [''Error '' @ exc]\<rparr>)
            | Response data \<Rightarrow>
                (let file_name = replace path ''/'' ''_'' @ ''.json'';
                     file_path = os_path_join dest_root file_name in
                 if open_fails w file_path then Raise OSError s
                 else if dump_fails w file_path then
                   Raise OSError (s\<lparr>written := written s @ [(file_path, Partial)]\<rparr>)
                 else
                   (let s = s\<lparr>written := written s @ [(file_path, Document data)],
                              printed := printed s @ [''Saved '' @ path]\<rparr> in
                    case enqueue_references module data (queue s) of
                      Inl e \<Rightarrow> Raise e s
                    | Inr q \<Rightarrow> Continue (s\<lparr>queue := q\<rparr>))))))"

partial_function (option) crawl_loop ::
  "world \<Rightarrow> string \<Rightarrow> string \<Rightarrow> int option \<Rightarrow> crawl_state \<Rightarrow> ((pyvalue + crawl_error) \<times> crawl_state) option"
where
  "crawl_loop w module dest_root limit s =
     (case queue s of
        [] \<Rightarrow> Some (Inl PyNone, s)
      | path # rest \<Rightarrow>
          (case loop_body w module dest_root limit path (s\<lparr>queue := rest\<rparr>) of
             Continue s' \<Rightarrow> crawl_loop w module dest_root limit s'
           | Break s' \<Rightarrow> Some (Inl PyNone, s')
           | Raise e s' \<Rightarrow> Some (Inr e, s')))"

declare crawl_loop.simps [code]

definition initial_state :: "string \<Rightarrow> crawl_state" where
  "initial_state module =
     \<lparr>queue = [''documentation/'' @ module], visited = {}, fetched = [], written = [], printed = []\<rparr>"

definition fetch_module ::
  "world \<Rightarrow> string \<Rightarrow> string \<Rightarrow> int option \<Rightarrow> ((pyvalue + crawl_error) \<times> crawl_state) option" where
  \<comment> \<open>\<open>None\<close>: the loop never ends. \<open>Inl v\<close>: it returned \<open>v\<close>. \<open>Inr e\<close>: \<open>e\<close> was raised.\<close>
  "fetch_module w module dest_root limit =
     (if makedirs_fails w dest_root
      then Some (Inr OSError, (initial_state module)\<lparr>queue := []\<rparr>)
      else crawl_loop w module dest_root limit (initial_state module))"

text \<open>
  The states in which the loop tests \<open>while queue\<close>: the first one, and the one after each
  iteration that neither breaks nor raises. They are there whether or not the loop ends.
\<close>

inductive reaches :: "world \<Rightarrow> string \<Rightarrow> string \<Rightarrow> int option \<Rightarrow> crawl_state \<Rightarrow> bool"
  for w :: world and module :: string and dest_root :: string and limit :: "int option"
where
  start: "reaches w module dest_root limit (initial_state module)"
| again: "reaches w module dest_root limit s \<Longrightarrow> queue s = path # rest \<Longrightarrow>
          loop_body w module dest_root limit path (s\<lparr>queue := rest\<rparr>) = Continue t \<Longrightarrow>
          reaches w module dest_root limit t"

subsection \<open>Notions the properties are stated with\<close>

definition url_of :: "string \<Rightarrow> string" where
  \<comment> \<open>the URL \<open>loop_body\<close> opens for a path\<close>
  "url_of path = BASE_URL @ ''/'' @ path @ ''.json''"

definition file_path_of :: "string \<Rightarrow> string \<Rightarrow> string" where
  \<comment> \<open>the file \<open>loop_body\<close> writes for a path: separators become underscores\<close>
  "file_path_of dest_root path =
     os_path_join dest_root
       (map (\<lambda>c. if c = CHR ''/'' then CHR ''_'' else c) path @ ''.json'')"

definition write_fails :: "world \<Rightarrow> string \<Rightarrow> bool" where
  \<comment> \<open>the \<open>with open(...)\<close> block of \<open>loop_body\<close> raises\<close>
  "write_fails w file_path \<longleftrightarrow> open_fails w file_path \<or> dump_fails w file_path"

definition url_string :: "json \<Rightarrow> string option" where
  \<comment> \<open>the \<open>url\<close> string a reference value carries, if it is a dict that has one\<close>
  "url_string ref =
     (case ref of
        JObj entries \<Rightarrow> (case map_of entries ''url'' of Some (JStr u) \<Rightarrow> Some u | _ \<Rightarrow> None)
      | _ \<Rightarrow> None)"

definition in_scope_paths :: "string \<Rightarrow> json list \<Rightarrow> string list" where
  \<comment> \<open>the url strings that begin with \<open>/documentation/<module>\<close>, stripped of their
      leading and trailing separators, in the order of the reference values\<close>
  "in_scope_paths module refs =
     map (\<lambda>u. strip u ''/'')
       (filter (\<lambda>u. startswith u (''/documentation/'' @ module)) (List.map_filter url_string refs))"

definition links :: "string \<Rightarrow> json \<Rightarrow> string list" where
  \<comment> \<open>the paths a document makes the crawler enqueue (none when the document raises)\<close>
  "links module data = (case enqueue_references module data [] of Inr q \<Rightarrow> q | Inl e \<Rightarrow> [])"

definition responded :: "world \<Rightarrow> string \<Rightarrow> bool" where
  "responded w path = (case urlopen w (url_of path) of Response data \<Rightarrow> True | _ \<Rightarrow> False)"

definition report :: "world \<Rightarrow> string \<Rightarrow> string" where
  \<comment> \<open>the line printed for a path whose fetch was made and, on success, stored\<close>
  "report w path =
     (case urlopen w (url_of path) of
        HTTPError code \<Rightarrow> ''HTTPError '' @ str_int code @ '' '' @ url_of path
      | Failure exc \<Rightarrow> ''Error '' @ exc
      | Response data \<Rightarrow> ''Saved '' @ path)"

definition stored :: "world \<Rightarrow> string \<Rightarrow> string \<Rightarrow> (string \<times> contents) option" where
  \<comment> \<open>the file written for a path whose fetch succeeded\<close>
  "stored w dest_root path =
     (case urlopen w (url_of path) of
        Response data \<Rightarrow> Some (file_path_of dest_root path, Document data)
      | _ \<Rightarrow> None)"

definition left_behind :: "world \<Rightarrow> string \<Rightarrow> string \<Rightarrow> (string \<times> contents) list" where
  \<comment> \<open>what the write of a path's file leaves when it raises: nothing when \<open>open\<close> raised,
      the file made or emptied when \<open>json.dump\<close> raised\<close>
  "left_behind w dest_root path =
     (if open_fails w (file_path_of dest_root path) then []
      else [(file_path_of dest_root path, Partial)])"

definition limit_line :: "int \<Rightarrow> string \<Rightarrow> string" where
  "limit_line l module = ''Reached limit ('' @ str_int l @ '') for '' @ module @ ''; stopping.''"


definition over_limit :: "int option \<Rightarrow> string set \<Rightarrow> bool" where
  \<comment> \<open>\<open>limit is not None and len(visited) > limit\<close>\<close>
  "over_limit limit V = (case limit of None \<Rightarrow> False | Some l \<Rightarrow> int (card V) > l)"

definition crawl_inv :: "world \<Rightarrow> string \<Rightarrow> int option \<Rightarrow> crawl_state \<Rightarrow> bool" where
  \<comment> \<open>what holds each time the loop tests \<open>while queue\<close>\<close>
  "crawl_inv w dest_root limit s \<longleftrightarrow>
     visited s = set (fetched s) \<and> distinct (fetched s) \<and>
     printed s = map (report w) (fetched s) \<and>
     written s = List.map_filter (stored w dest_root) (fetched s) \<and>
     (\<forall>p \<in> set (fetched s). responded w p \<longrightarrow> \<not> write_fails w (file_path_of dest_root p)) \<and>
     (fetched s = [] \<or> \<not> over_limit limit (visited s))"

definition scope_inv :: "string \<Rightarrow> crawl_state \<Rightarrow> bool" where
  "scope_inv module s \<longleftrightarrow>
     (\<forall>p \<in> set (queue s) \<union> visited s. startswith p (''documentation/'' @ module))"

section \<open>Example inputs\<close>

definition example_os :: os_calls where
  "example_os =
     \<lparr>path_exists = (\<lambda>p. p = ''raw/exact.json''),
      listdir = (\<lambda>d. if d = ''raw''
                      then Inr [''topic_long.json'', ''topic.json'', ''other.json'', ''topiC.json'']
                      else Inl FileNotFoundError),
      copy2 = (\<lambda>src dst. None)\<rparr>"

definition doc :: "string list \<Rightarrow> json" where
  \<comment> \<open>a document whose \<open>references\<close> carry the given urls\<close>
  "doc urls = JObj [(''references'', JObj (map (\<lambda>u. (u, JObj [(''url'', JStr u)])) urls))]"

definition site :: "(string \<times> fetch_result) list \<Rightarrow> world" where
  \<comment> \<open>a remote service that answers the listed paths and has nothing else; every local
      write works\<close>
  "site pages =
     \<lparr>urlopen = (\<lambda>url. case map_of (map (\<lambda>(p, r). (url_of p, r)) pages) url of
                          Some r \<Rightarrow> r | None \<Rightarrow> HTTPError 404),
      makedirs_fails = (\<lambda>d. False),
      open_fails = (\<lambda>p. False),
      dump_fails = (\<lambda>p. False)\<rparr>"

definition widgets_site :: world where
  \<comment> \<open>the seed references a node of its module and a node outside; the node references
      the seed back\<close>
  "widgets_site =
     site [(''documentation/Widgets'',
              Response (doc [''/documentation/Widgets/Gadget'', ''/documentation/Other/Thing''])),
           (''documentation/Widgets/Gadget'', Response (doc [''/documentation/Widgets'']))]"

definition flaky_site :: world where
  "flaky_site =
     site [(''documentation/Widgets'',
              Response (doc [''/documentation/Widgets/Gadget'', ''/documentation/Widgets/Gizmo/'',
                             ''/documentation/Other/Thing''])),
           (''documentation/Widgets/Gizmo'', Failure ''timed out'')]"

definition gadget_unwritable :: world where
  "gadget_unwritable =
     widgets_site\<lparr>dump_fails := (\<lambda>p. p = ''out/documentation_Widgets_Gadget.json'')\<rparr>"

definition widgets_final :: crawl_state where
  "widgets_final =
     \<lparr>queue = [],
      visited = {''documentation/Widgets'', ''documentation/Widgets/Gadget''},
      fetched = [''documentation/Widgets'', ''documentation/Widgets/Gadget''],
      written =
        [(''out/documentation_Widgets.json'',
          Document (doc [''/documentation/Widgets/Gadget'', ''/documentation/Other/Thing''])),
         (''out/documentation_Widgets_Gadget.json'', Document (doc [''/documentation/Widgets'']))],
      printed = [''Saved documentation/Widgets'', ''Saved documentation/Widgets/Gadget'']\<rparr>"

definition flaky_final :: crawl_state where
  "flaky_final =
     \<lparr>queue = [],
      visited = {''documentation/Widgets'', ''documentation/Widgets/Gadget'',
                 ''documentation/Widgets/Gizmo''},
      fetched = [''documentation/Widgets'', ''documentation/Widgets/Gadget'',
                 ''documentation/Widgets/Gizmo''],
      written =
        [(''out/documentation_Widgets.json'',
          Document (doc [''/documentation/Widgets/Gadget'', ''/documentation/Widgets/Gizmo/'',
               ''/documentation/Other/Thing'']))],
      printed =
        [''Saved documentation/Widgets'',
         ''HTTPError 404 https://developer.apple.com/tutorials/data/documentation/Widgets/Gadget.json'',
         ''Error timed out'']\<rparr>"

definition gadget_aborted :: crawl_state where
  "gadget_aborted =
     \<lparr>queue = [],
      visited = {''documentation/Widgets'', ''documentation/Widgets/Gadget''},
      fetched = [''documentation/Widgets'', ''documentation/Widgets/Gadget''],
      written =
        [(''out/documentation_Widgets.json'',
          Document (doc [''/documentation/Widgets/Gadget'', ''/documentation/Other/Thing''])),
         (''out/documentation_Widgets_Gadget.json'', Partial)],
      printed = [''Saved documentation/Widgets'']\<rparr>"

definition flaky_limited :: crawl_state where
  "flaky_limited =
     \<lparr>queue = [''documentation/Widgets/Gizmo''],
      visited = {''documentation/Widgets'', ''documentation/Widgets/Gadget''},
      fetched = [''documentation/Widgets''],
      written =
        [(''out/documentation_Widgets.json'',
          Document (doc [''/documentation/Widgets/Gadget'', ''/documentation/Widgets/Gizmo/'',
               ''/documentation/Other/Thing'']))],
      printed = [''Saved documentation/Widgets'', ''Reached limit (1) for Widgets; stopping.'']\<rparr>"

definition widgets_after_seed :: crawl_state where
  "widgets_after_seed =
     \<lparr>queue = [''documentation/Widgets/Gadget''], visited = {''documentation/Widgets''},
      fetched = [''documentation/Widgets''],
      written = [(''out/documentation_Widgets.json'',
          Document (doc [''/documentation/Widgets/Gadget'', ''/documentation/Other/Thing'']))],
      printed = [''Saved documentation/Widgets'']\<rparr>"

definition flaky_after_seed :: crawl_state where
  "flaky_after_seed =
     \<lparr>queue = [''documentation/Widgets/Gadget'', ''documentation/Widgets/Gizmo''],
      visited = {''documentation/Widgets''},
      fetched = [''documentation/Widgets''],
      written = [(''out/documentation_Widgets.json'',
          Document (doc [''/documentation/Widgets/Gadget'', ''/documentation/Widgets/Gizmo/'',
               ''/documentation/Other/Thing'']))],
      printed = [''Saved documentation/Widgets'']\<rparr>"

definition unwritable_site :: world where
  \<comment> \<open>the seed references two nodes; the file of the first cannot be opened\<close>
  "unwritable_site =
     (site [(''documentation/Widgets'',
               Response (doc [''/documentation/Widgets/Gadget'', ''/documentation/Widgets/Gizmo''])),
            (''documentation/Widgets/Gadget'', Response (doc [])),
            (''documentation/Widgets/Gizmo'', Response (doc []))])
       \<lparr>open_fails := (\<lambda>p. p = ''out/documentation_Widgets_Gadget.json'')\<rparr>"

definition swift_site :: world where
  \<comment> \<open>the seed of module \<open>Swift\<close> references a node of module \<open>SwiftUI\<close>\<close>
  "swift_site =
     site [(''documentation/Swift'', Response (doc [''/documentation/SwiftUI/View''])),
           (''documentation/SwiftUI/View'', Response (doc []))]"

section \<open>Strings\<close>

lemma startswith_append [simp]: "startswith (p @ r) p"
  by (simp add: startswith_def)

lemma startswith_iff: "startswith s p \<longleftrightarrow> (\<exists>r. s = p @ r)"
  by (metis append_eq_conv_conj startswith_def)

lemma replace_slash: "replace path ''/'' ''_'' = map (\<lambda>c. if c = CHR ''/'' then CHR ''_'' else c) path"
proof (induction path)
  case Nil
  show ?case by (simp add: replace.simps)
next
  case (Cons c cs)
  show ?case
    using Cons by (subst replace.simps) (simp add: startswith_def)
qed

lemma startswith_Nil [simp]: "startswith [] p \<longleftrightarrow> p = []"
  by (auto simp: startswith_def)

lemma enqueue_ref_eq:
  "enqueue_ref module q ref =
     (case url_string ref of
        None \<Rightarrow> q
      | Some u \<Rightarrow> if startswith u (''/documentation/'' @ module) then q @ [strip u ''/''] else q)"
proof (cases ref)
  case (JObj entries)
  show ?thesis
  proof (cases "map_of entries ''url''")
    case None
    then show ?thesis
      using JObj by (simp add: enqueue_ref_def url_string_def dict_get_def)
  next
    case (Some v)
    then show ?thesis
      using JObj
      by (cases v) (auto simp: enqueue_ref_def url_string_def dict_get_def Let_def)
  qed
qed (simp_all add: enqueue_ref_def url_string_def)

lemma foldl_enqueue_ref:
  "foldl (enqueue_ref module) q refs = q @ in_scope_paths module refs"
proof (induction refs arbitrary: q)
  case Nil
  show ?case by (simp add: in_scope_paths_def List.map_filter_simps)
next
  case (Cons r refs)
  show ?case
    by (simp add: Cons enqueue_ref_eq [of module q r] in_scope_paths_def List.map_filter_simps
        split: option.split)
qed

lemma enqueue_references_append:
  "enqueue_references module data q =
     (case enqueue_references module data [] of Inl e \<Rightarrow> Inl e | Inr x \<Rightarrow> Inr (q @ x))"
  by (simp add: enqueue_references_def foldl_enqueue_ref split: json.split)

lemma enqueue_references_links:
  "enqueue_references module data [] = Inr x \<Longrightarrow> links module data = x"
  by (simp add: links_def)

lemma file_name_eq:
  "os_path_join dest_root (replace path ''/'' ''_'' @ ''.json'') = file_path_of dest_root path"
  by (simp add: file_path_of_def replace_slash)

lemma over_limit_eq:
  "(case limit of None \<Rightarrow> False | Some l \<Rightarrow> l < int (card V)) = over_limit limit V"
  by (simp add: over_limit_def)

lemma loop_body_visited:
  "path \<in> visited s \<Longrightarrow> loop_body w module dest_root limit path s = Continue s"
  by (simp add: loop_body_def)

lemma loop_body_limit:
  assumes "path \<notin> visited s" "limit = Some l" "l < int (card (insert path (visited s)))"
  shows "loop_body w module dest_root limit path s =
           Break (s\<lparr>visited := insert path (visited s),
                    printed := printed s @ [limit_line l module]\<rparr>)"
  using assms by (simp add: loop_body_def limit_line_def)

lemma loop_body_failed:
  assumes "path \<notin> visited s" "\<not> over_limit limit (insert path (visited s))"
    "\<not> responded w path"
  shows "loop_body w module dest_root limit path s =
           Continue (s\<lparr>visited := insert path (visited s),
                       fetched := fetched s @ [path],
                       printed := printed s @ [report w path]\<rparr>)"
  using assms
  by (simp add: loop_body_def over_limit_eq responded_def report_def url_of_def Let_def
      split: fetch_result.splits)

lemma loop_body_write_fails:
  assumes "path \<notin> visited s" "\<not> over_limit limit (insert path (visited s))"
    "urlopen w (url_of path) = Response data" "write_fails w (file_path_of dest_root path)"
  shows "loop_body w module dest_root limit path s =
           Raise OSError (s\<lparr>visited := insert path (visited s), fetched := fetched s @ [path],
                            written := written s @ left_behind w dest_root path\<rparr>)"
  using assms
  by (auto simp: loop_body_def over_limit_eq url_of_def file_name_eq Let_def write_fails_def
      left_behind_def)

lemma loop_body_malformed:
  assumes "path \<notin> visited s" "\<not> over_limit limit (insert path (visited s))"
    "urlopen w (url_of path) = Response data" "\<not> write_fails w (file_path_of dest_root path)"
    "enqueue_references module data [] = Inl e"
  shows "loop_body w module dest_root limit path s =
           Raise e (s\<lparr>visited := insert path (visited s),
                      fetched := fetched s @ [path],
                      written := written s @ [(file_path_of dest_root path, Document data)],
                      printed := printed s @ [report w path]\<rparr>)"
  using assms
  by (simp add: loop_body_def over_limit_eq url_of_def file_name_eq Let_def report_def
      write_fails_def enqueue_references_append [of module data "queue s"])

lemma loop_body_saved:
  assumes "path \<notin> visited s" "\<not> over_limit limit (insert path (visited s))"
    "urlopen w (url_of path) = Response data" "\<not> write_fails w (file_path_of dest_root path)"
    "enqueue_references module data [] = Inr x"
  shows "loop_body w module dest_root limit path s =
           Continue (s\<lparr>queue := queue s @ x,
                       visited := insert path (visited s),
                       fetched := fetched s @ [path],
                       written := written s @ [(file_path_of dest_root path, Document data)],
                       printed := printed s @ [report w path]\<rparr>)"
  using assms
  by (simp add: loop_body_def over_limit_eq url_of_def file_name_eq Let_def report_def
      write_fails_def enqueue_references_append [of module data "queue s"])

lemma rstrip_keep:
  assumes "a \<noteq> []" "\<not> P (last a)"
  shows "\<exists>r. rev (dropWhile P (rev (a @ b))) = a @ r"
proof -
  have "rev (a @ b) = rev b @ rev a" by simp
  have "dropWhile P (rev b @ rev a) = (if \<forall>x \<in> set (rev b). P x then dropWhile P (rev a) else dropWhile P (rev b) @ rev a)"
    by (simp add: dropWhile_append)
  moreover have "dropWhile P (rev a) = rev a"
    using assms by (cases "rev a") (auto simp: last_rev hd_rev) 
  ultimately show ?thesis
    by (cases "\<forall>x \<in> set (rev b). P x") (auto simp: )
qed

lemma strip_in_scope:
  assumes m: "module \<noteq> []" "last module \<noteq> CHR ''/''"
    and u: "startswith u (''/documentation/'' @ module)"
  shows "startswith (strip u ''/'') (''documentation/'' @ module)"
proof -
  obtain r where r: "u = ''/documentation/'' @ module @ r"
    using u by (auto simp: startswith_iff)
  have "dropWhile (\<lambda>c. c \<in> set ''/'') u = (''documentation/'' @ module) @ r"
    by (simp add: r)
  moreover have "\<exists>t. rev (dropWhile (\<lambda>c. c \<in> set ''/'') (rev ((''documentation/'' @ module) @ r))) = (''documentation/'' @ module) @ t"
    using m by (intro rstrip_keep) auto
  ultimately show ?thesis
    by (auto simp: strip_def startswith_iff)
qed

lemma over_limit_iff:
  "over_limit limit V \<longleftrightarrow> (\<exists>l. limit = Some l \<and> l < int (card V))"
  by (cases limit) (simp_all add: over_limit_def)

lemma loop_body_cases [case_names Visited Limit Failed WriteFails Malformed Saved]:
  obtains
    "path \<in> visited s" "loop_body w module dest_root limit path s = Continue s"
  | l where "path \<notin> visited s" "limit = Some l" "l < int (card (insert path (visited s)))"
      "loop_body w module dest_root limit path s =
         Break (s\<lparr>visited := insert path (visited s),
                  printed := printed s @ [limit_line l module]\<rparr>)"
  | "path \<notin> visited s" "\<not> over_limit limit (insert path (visited s))" "\<not> responded w path"
      "loop_body w module dest_root limit path s =
         Continue (s\<lparr>visited := insert path (visited s),
                     fetched := fetched s @ [path],
                     printed := printed s @ [report w path]\<rparr>)"
  | data where "path \<notin> visited s" "\<not> over_limit limit (insert path (visited s))"
      "urlopen w (url_of path) = Response data" "write_fails w (file_path_of dest_root path)"
      "loop_body w module dest_root limit path s =
         Raise OSError (s\<lparr>visited := insert path (visited s), fetched := fetched s @ [path],
                          written := written s @ left_behind w dest_root path\<rparr>)"
  | data e where "path \<notin> visited s" "\<not> over_limit limit (insert path (visited s))"
      "urlopen w (url_of path) = Response data"
      "\<not> write_fails w (file_path_of dest_root path)"
      "enqueue_references module data [] = Inl e"
      "loop_body w module dest_root limit path s =
         Raise e (s\<lparr>visited := insert path (visited s),
                    fetched := fetched s @ [path],
                    written := written s @ [(file_path_of dest_root path, Document data)],
                    printed := printed s @ [report w path]\<rparr>)"
  | data x where "path \<notin> visited s" "\<not> over_limit limit (insert path (visited s))"
      "urlopen w (url_of path) = Response data"
      "\<not> write_fails w (file_path_of dest_root path)"
      "enqueue_references module data [] = Inr x"
      "loop_body w module dest_root limit path s =
         Continue (s\<lparr>queue := queue s @ x,
                     visited := insert path (visited s),
                     fetched := fetched s @ [path],
                     written := written s @ [(file_path_of dest_root path, Document data)],
                     printed := printed s @ [report w path]\<rparr>)"
proof (cases "path \<in> visited s")
  case True
  then show ?thesis using that(1) loop_body_visited by blast
next
  case nv: False
  show ?thesis
  proof (cases "over_limit limit (insert path (visited s))")
    case True
    then obtain l where "limit = Some l" "l < int (card (insert path (visited s)))"
      by (auto simp: over_limit_iff)
    then show ?thesis using that(2) nv loop_body_limit by blast
  next
    case nl: False
    show ?thesis
    proof (cases "urlopen w (url_of path)")
      case (Response data)
      show ?thesis
      proof (cases "write_fails w (file_path_of dest_root path)")
        case True
        then show ?thesis using that(4) nv nl Response loop_body_write_fails by blast
      next
        case nf: False
        show ?thesis
        proof (cases "enqueue_references module data []")
          case (Inl e)
          then show ?thesis using that(5) nv nl Response nf loop_body_malformed by blast
        next
          case (Inr x)
          then show ?thesis using that(6) nv nl Response nf loop_body_saved by blast
        qed
      qed
    next
      case (HTTPError c)
      then have "\<not> responded w path" by (simp add: responded_def)
      then show ?thesis using that(3) nv nl loop_body_failed by blast
    next
      case (Failure e)
      then have "\<not> responded w path" by (simp add: responded_def)
      then show ?thesis using that(3) nv nl loop_body_failed by blast
    qed
  qed
qed

lemma crawl_loop_Nil:
  "queue s = [] \<Longrightarrow> crawl_loop w module dest_root limit s = Some (Inl PyNone, s)"
  by (subst crawl_loop.simps) simp

lemma crawl_loop_Cons:
  "queue s = path # rest \<Longrightarrow>
   crawl_loop w module dest_root limit s =
     (case loop_body w module dest_root limit path (s\<lparr>queue := rest\<rparr>) of
        Continue s' \<Rightarrow> crawl_loop w module dest_root limit s'
      | Break s' \<Rightarrow> Some (Inl PyNone, s')
      | Raise e s' \<Rightarrow> Some (Inr e, s'))"
  by (subst crawl_loop.simps) simp

lemma crawl_loop_final:
  assumes run: "crawl_loop w module dest_root limit s = Some (r, s')"
    and I: "I s"
    and step: "\<And>s path rest t. I s \<Longrightarrow> queue s = path # rest \<Longrightarrow>
       loop_body w module dest_root limit path (s\<lparr>queue := rest\<rparr>) = Continue t \<Longrightarrow> I t"
  shows "\<exists>s0. I s0 \<and>
           ((queue s0 = [] \<and> r = Inl PyNone \<and> s' = s0) \<or>
            (\<exists>path rest. queue s0 = path # rest \<and>
               (loop_body w module dest_root limit path (s0\<lparr>queue := rest\<rparr>) = Break s' \<and> r = Inl PyNone
                \<or> (\<exists>e. loop_body w module dest_root limit path (s0\<lparr>queue := rest\<rparr>) = Raise e s'
                        \<and> r = Inr e))))"
proof -
  let ?Q = "\<lambda>s0 y. (queue s0 = [] \<and> fst y = Inl PyNone \<and> snd y = s0) \<or>
            (\<exists>path rest. queue s0 = path # rest \<and>
               (loop_body w module dest_root limit path (s0\<lparr>queue := rest\<rparr>) = Break (snd y) \<and> fst y = Inl PyNone
                \<or> (\<exists>e. loop_body w module dest_root limit path (s0\<lparr>queue := rest\<rparr>) = Raise e (snd y)
                        \<and> fst y = Inr e)))"
  let ?P = "\<lambda>w' m' d' l' s y. w' = w \<and> m' = module \<and> d' = dest_root \<and> l' = limit \<longrightarrow> I s \<longrightarrow>
              (\<exists>s0. I s0 \<and> ?Q s0 y)"
  have "?P w module dest_root limit s (r, s')"
  proof (rule crawl_loop.raw_induct [where P = ?P, OF _ run], intro impI, elim conjE)
    fix f w' m' d' l' s y
    assume IH: "\<And>w' m' d' l' s y. f w' m' d' l' s = Some y \<Longrightarrow> ?P w' m' d' l' s y"
      and eq: "(case queue s of [] \<Rightarrow> Some (Inl PyNone, s)
         | path # rest \<Rightarrow>
           (case loop_body w' m' d' l' path (s\<lparr>queue := rest\<rparr>) of
              Continue s' \<Rightarrow> f w' m' d' l' s'
            | Break s' \<Rightarrow> Some (Inl PyNone, s')
            | Raise e s' \<Rightarrow> Some (Inr e, s'))) = Some y"
      and par: "w' = w" "m' = module" "d' = dest_root" "l' = limit" and Is: "I s"
    show "\<exists>s0. I s0 \<and> ?Q s0 y"
    proof (cases "queue s")
      case Nil
      then have "?Q s y" using eq by auto
      then show ?thesis using Is by blast
    next
      case (Cons path rest)
      show ?thesis
      proof (cases "loop_body w module dest_root limit path (s\<lparr>queue := rest\<rparr>)")
        case (Continue t)
        then have "f w module dest_root limit t = Some y" using eq Cons par by simp
        moreover have "I t" using step [OF Is Cons Continue] .
        ultimately show ?thesis using IH by blast
      next
        case (Break t)
        then have "?Q s y" using eq Cons par by auto
        then show ?thesis using Is by blast
      next
        case (Raise e t)
        then have "?Q s y" using eq Cons par by auto
        then show ?thesis using Is by blast
      qed
    qed
  qed
  then show ?thesis using I by simp
qed

lemma map_filter_append:
  "List.map_filter f (xs @ ys) = List.map_filter f xs @ List.map_filter f ys"
  by (simp add: List.map_filter_def)

lemma stored_None: "\<not> responded w p \<Longrightarrow> stored w d p = None"
  by (simp add: responded_def stored_def split: fetch_result.splits)

lemma stored_Some:
  "urlopen w (url_of p) = Response data \<Longrightarrow> stored w d p = Some (file_path_of d p, Document data)"
  by (simp add: stored_def)

lemma crawl_inv_initial: "crawl_inv w dest_root limit (initial_state module)"
  by (simp add: crawl_inv_def initial_state_def List.map_filter_simps)

lemma crawl_inv_step:
  assumes I: "crawl_inv w dest_root limit s" and q: "queue s = path # rest"
    and b: "loop_body w module dest_root limit path (s\<lparr>queue := rest\<rparr>) = Continue t"
  shows "crawl_inv w dest_root limit t"
proof (cases w module dest_root limit path "s\<lparr>queue := rest\<rparr>" rule: loop_body_cases)
  case Visited
  then show ?thesis using I b by (auto simp: crawl_inv_def)
next
  case (Limit l)
  then show ?thesis using b by simp
next
  case Failed
  then have t: "t = s\<lparr>queue := rest, visited := insert path (visited s),
      fetched := fetched s @ [path], printed := printed s @ [report w path]\<rparr>"
    using b by simp
  show ?thesis
    using I Failed(1-3) unfolding t crawl_inv_def
    by (simp add: map_filter_append List.map_filter_simps stored_None)
next
  case (WriteFails data)
  then show ?thesis using b by simp
next
  case (Malformed data e)
  then show ?thesis using b by simp
next
  case (Saved data x)
  then have t: "t = s\<lparr>queue := rest @ x, visited := insert path (visited s),
      fetched := fetched s @ [path],
      written := written s @ [(file_path_of dest_root path, Document data)],
      printed := printed s @ [report w path]\<rparr>"
    using b by simp
  show ?thesis
    using I Saved(1-4) unfolding t crawl_inv_def
    by (simp add: map_filter_append List.map_filter_simps stored_Some)
qed

lemma crawl_final [consumes 1, case_names Makedirs Exit Limit WriteFails Malformed]:
  assumes run: "fetch_module w module dest_root limit = Some (r, s')"
    and J0: "J (initial_state module)"
    and Jstep: "\<And>s path rest t. crawl_inv w dest_root limit s \<Longrightarrow> J s \<Longrightarrow>
       queue s = path # rest \<Longrightarrow>
       loop_body w module dest_root limit path (s\<lparr>queue := rest\<rparr>) = Continue t \<Longrightarrow> J t"
  obtains
    "makedirs_fails w dest_root" "r = Inr OSError" "s' = (initial_state module)\<lparr>queue := []\<rparr>"
  | "crawl_inv w dest_root limit s'" "J s'" "queue s' = []" "r = Inl PyNone"
  | s0 path rest l where "crawl_inv w dest_root limit s0" "J s0" "queue s0 = path # rest"
      "path \<notin> visited s0" "limit = Some l" "l < int (card (insert path (visited s0)))"
      "r = Inl PyNone"
      "s' = s0\<lparr>queue := rest, visited := insert path (visited s0),
                printed := printed s0 @ [limit_line l module]\<rparr>"
  | s0 path rest data where "crawl_inv w dest_root limit s0" "J s0" "queue s0 = path # rest"
      "path \<notin> visited s0" "\<not> over_limit limit (insert path (visited s0))"
      "urlopen w (url_of path) = Response data" "write_fails w (file_path_of dest_root path)"
      "r = Inr OSError"
      "s' = s0\<lparr>queue := rest, visited := insert path (visited s0),
                fetched := fetched s0 @ [path],
                written := written s0 @ left_behind w dest_root path\<rparr>"
  | s0 path rest data e where "crawl_inv w dest_root limit s0" "J s0" "queue s0 = path # rest"
      "path \<notin> visited s0" "\<not> over_limit limit (insert path (visited s0))"
      "urlopen w (url_of path) = Response data"
      "\<not> write_fails w (file_path_of dest_root path)"
      "enqueue_references module data [] = Inl e"
      "r = Inr e"
      "s' = s0\<lparr>queue := rest, visited := insert path (visited s0),
                fetched := fetched s0 @ [path],
                written := written s0 @ [(file_path_of dest_root path, Document data)],
                printed := printed s0 @ [report w path]\<rparr>"
proof (cases "makedirs_fails w dest_root")
  case True
  then show ?thesis using run that(1) by (simp add: fetch_module_def)
next
  case False
  let ?I = "\<lambda>s. crawl_inv w dest_root limit s \<and> J s"
  have loop: "crawl_loop w module dest_root limit (initial_state module) = Some (r, s')"
    using run False by (simp add: fetch_module_def)
  have "\<exists>s0. ?I s0 \<and>
           ((queue s0 = [] \<and> r = Inl PyNone \<and> s' = s0) \<or>
            (\<exists>path rest. queue s0 = path # rest \<and>
               (loop_body w module dest_root limit path (s0\<lparr>queue := rest\<rparr>) = Break s' \<and> r = Inl PyNone
                \<or> (\<exists>e. loop_body w module dest_root limit path (s0\<lparr>queue := rest\<rparr>) = Raise e s'
                        \<and> r = Inr e))))"
  proof (rule crawl_loop_final [where I = ?I, OF loop])
    show "?I (initial_state module)" using crawl_inv_initial J0 by simp
  next
    fix s path rest t
    assume "?I s" "queue s = path # rest"
      "loop_body w module dest_root limit path (s\<lparr>queue := rest\<rparr>) = Continue t"
    then show "?I t" using crawl_inv_step Jstep by blast
  qed
  then obtain s0 where I0: "crawl_inv w dest_root limit s0" "J s0"
    and fin: "(queue s0 = [] \<and> r = Inl PyNone \<and> s' = s0) \<or>
            (\<exists>path rest. queue s0 = path # rest \<and>
               (loop_body w module dest_root limit path (s0\<lparr>queue := rest\<rparr>) = Break s' \<and> r = Inl PyNone
                \<or> (\<exists>e. loop_body w module dest_root limit path (s0\<lparr>queue := rest\<rparr>) = Raise e s'
                        \<and> r = Inr e)))"
    by blast
  show ?thesis
  proof (cases "queue s0")
    case Nil
    then show ?thesis using fin I0 that(2) by auto
  next
    case (Cons path rest)
    then have fin': "loop_body w module dest_root limit path (s0\<lparr>queue := rest\<rparr>) = Break s' \<and> r = Inl PyNone
                \<or> (\<exists>e. loop_body w module dest_root limit path (s0\<lparr>queue := rest\<rparr>) = Raise e s'
                        \<and> r = Inr e)"
      using fin by auto
    show ?thesis
    proof (cases w module dest_root limit path "s0\<lparr>queue := rest\<rparr>" rule: loop_body_cases)
      case Visited
      then show ?thesis using fin' by simp
    next
      case (Limit l)
      then show ?thesis using fin' I0 Cons that(3) [of s0 path rest l] by auto
    next
      case Failed
      then show ?thesis using fin' by simp
    next
      case (WriteFails data)
      then show ?thesis using fin' I0 Cons that(4) [of s0 path rest data] by auto
    next
      case (Malformed data e)
      then show ?thesis using fin' I0 Cons that(5) [of s0 path rest data e] by auto
    next
      case (Saved data x)
      then show ?thesis using fin' by simp
    qed
  qed
qed

section \<open>What a run leaves behind\<close>

lemma crawl_cases [consumes 1, case_names Makedirs Exit Limit WriteFails Malformed]:
  assumes run: "fetch_module w module dest_root limit = Some (r, s')"
  obtains
    "makedirs_fails w dest_root" "r = Inr OSError" "s' = (initial_state module)\<lparr>queue := []\<rparr>"
  | "crawl_inv w dest_root limit s'" "queue s' = []" "r = Inl PyNone"
  | s0 path rest l where "crawl_inv w dest_root limit s0" "queue s0 = path # rest"
      "path \<notin> visited s0" "limit = Some l" "l < int (card (insert path (visited s0)))"
      "r = Inl PyNone"
      "s' = s0\<lparr>queue := rest, visited := insert path (visited s0),
                printed := printed s0 @ [limit_line l module]\<rparr>"
  | s0 path rest data where "crawl_inv w dest_root limit s0" "queue s0 = path # rest"
      "path \<notin> visited s0" "\<not> over_limit limit (insert path (visited s0))"
      "urlopen w (url_of path) = Response data" "write_fails w (file_path_of dest_root path)"
      "r = Inr OSError"
      "s' = s0\<lparr>queue := rest, visited := insert path (visited s0),
                fetched := fetched s0 @ [path],
                written := written s0 @ left_behind w dest_root path\<rparr>"
  | s0 path rest data where "crawl_inv w dest_root limit s0" "queue s0 = path # rest"
      "path \<notin> visited s0" "\<not> over_limit limit (insert path (visited s0))"
      "urlopen w (url_of path) = Response data"
      "\<not> write_fails w (file_path_of dest_root path)"
      "enqueue_references module data [] = Inl AttributeError"
      "r = Inr AttributeError"
      "s' = s0\<lparr>queue := rest, visited := insert path (visited s0),
                fetched := fetched s0 @ [path],
                written := written s0 @ [(file_path_of dest_root path, Document data)],
                printed := printed s0 @ [report w path]\<rparr>"
proof (rule crawl_final [where J = "\<lambda>s. True", OF run])
  fix s0 path rest data e
  assume a: "crawl_inv w dest_root limit s0" "queue s0 = path # rest"
      "path \<notin> visited s0" "\<not> over_limit limit (insert path (visited s0))"
      "urlopen w (url_of path) = Response data"
      "\<not> write_fails w (file_path_of dest_root path)"
      "enqueue_references module data [] = Inl e"
      "r = Inr e"
      "s' = s0\<lparr>queue := rest, visited := insert path (visited s0),
                fetched := fetched s0 @ [path],
                written := written s0 @ [(file_path_of dest_root path, Document data)],
                printed := printed s0 @ [report w path]\<rparr>"
  have "e = AttributeError"
    using a(7) by (auto simp: enqueue_references_def split: json.splits)
  then show thesis using a that(5) by blast
qed (use that in blast)+

lemma fetched_distinct:
  assumes run: "fetch_module w module dest_root limit = Some (r, s')"
  shows "distinct (fetched s')"
  using run by (cases rule: crawl_cases) (auto simp: crawl_inv_def initial_state_def)

lemma report_saved_iff: "startswith (report w p) ''Saved '' \<longleftrightarrow> responded w p"
  by (simp add: report_def responded_def startswith_def split: fetch_result.split)

lemma report_error_iff:
  "startswith (report w p) ''HTTPError '' \<or> startswith (report w p) ''Error '' \<longleftrightarrow> \<not> responded w p"
  by (simp add: report_def responded_def startswith_def split: fetch_result.split)

lemma limit_line_other:
  "\<not> startswith (limit_line l module) ''Saved ''"
  "\<not> startswith (limit_line l module) ''HTTPError ''"
  "\<not> startswith (limit_line l module) ''Error ''"
  by (simp_all add: limit_line_def startswith_def)

lemma count_saved:
  "length (filter (\<lambda>line. startswith line ''Saved '') (map (report w) ps)) =
   length (filter (responded w) ps)"
  by (induction ps) (simp_all add: report_saved_iff)

lemma count_errors:
  "length (filter (\<lambda>line. startswith line ''HTTPError '' \<or> startswith line ''Error '')
     (map (report w) ps)) = length (filter (\<lambda>p. \<not> responded w p) ps)"
  by (induction ps) (simp_all add: report_error_iff)


lemma fetched_within_limit:
  assumes run: "fetch_module w module dest_root (Some l) = Some (r, s')"
  shows "int (length (fetched s')) \<le> max 0 l"
  using run
proof (cases rule: crawl_cases)
  case Makedirs
  then show ?thesis by (simp add: initial_state_def)
next
  case Exit
  then show ?thesis
    by (auto simp: crawl_inv_def over_limit_def distinct_card)
next
  case (Limit s0 path rest l')
  then show ?thesis
    by (auto simp: crawl_inv_def over_limit_def distinct_card)
next
  case (WriteFails s0 path rest data)
  then show ?thesis
    by (auto simp: crawl_inv_def over_limit_def distinct_card)
next
  case (Malformed s0 path rest data)
  then show ?thesis
    by (auto simp: crawl_inv_def over_limit_def distinct_card)
qed

lemma limit_scenario:
  assumes mk: "\<not> makedirs_fails w dest_root"
    and ok: "urlopen w (url_of (''documentation/'' @ module)) = Response data"
    and wr: "\<not> write_fails w (file_path_of dest_root (''documentation/'' @ module))"
    and refs: "enqueue_references module data [] = Inr [a, b]"
    and further: "a \<noteq> ''documentation/'' @ module"
  shows "fetch_module w module dest_root (Some 1) =
     Some (Inl PyNone,
       \<lparr>queue = [b], visited = {''documentation/'' @ module, a},
        fetched = [''documentation/'' @ module],
        written = [(file_path_of dest_root (''documentation/'' @ module), Document data)],
        printed = [''Saved '' @ ''documentation/'' @ module, limit_line 1 module]\<rparr>)"
proof -
  let ?seed = "''documentation/'' @ module"
  let ?s0 = "\<lparr>queue = [?seed], visited = {}, fetched = [], written = [], printed = []\<rparr>"
  let ?s0' = "\<lparr>queue = [], visited = {}, fetched = [], written = [], printed = []\<rparr>"
  let ?s1 = "\<lparr>queue = [a, b], visited = {?seed}, fetched = [?seed],
             written = [(file_path_of dest_root ?seed, Document data)],
             printed = [''Saved '' @ ?seed]\<rparr>"
  let ?s1' = "\<lparr>queue = [b], visited = {?seed}, fetched = [?seed],
             written = [(file_path_of dest_root ?seed, Document data)],
             printed = [''Saved '' @ ?seed]\<rparr>"
  have rep: "report w ?seed = ''Saved '' @ ?seed" using ok by (simp add: report_def)
  have b0: "loop_body w module dest_root (Some 1) ?seed ?s0' = Continue ?s1"
    using loop_body_saved [of ?seed ?s0' "Some 1" w data dest_root module "[a, b]"] ok wr refs rep
    by (simp add: over_limit_def)
  have b1: "loop_body w module dest_root (Some 1) a ?s1' =
      Break \<lparr>queue = [b], visited = {?seed, a}, fetched = [?seed],
             written = [(file_path_of dest_root ?seed, Document data)],
             printed = [''Saved '' @ ?seed, limit_line 1 module]\<rparr>"
    using loop_body_limit [of a ?s1' "Some 1" 1 w module dest_root] further
    by (simp add: insert_commute)
  have "crawl_loop w module dest_root (Some 1) ?s0 = crawl_loop w module dest_root (Some 1) ?s1"
    using crawl_loop_Cons [of ?s0 ?seed "[]" w module dest_root "Some 1"] b0 by simp
  also have "\<dots> = Some (Inl PyNone,
       \<lparr>queue = [b], visited = {?seed, a}, fetched = [?seed],
        written = [(file_path_of dest_root ?seed, Document data)],
        printed = [''Saved '' @ ?seed, limit_line 1 module]\<rparr>)"
    using crawl_loop_Cons [of ?s1 a "[b]" w module dest_root "Some 1"] b1 by simp
  finally show ?thesis using mk by (simp add: fetch_module_def initial_state_def)
qed



lemma written_final:
  assumes "fetch_module w module dest_root limit = Some (r, s')"
  shows "written s' =
          List.map_filter (stored w dest_root)
            (if r = Inr OSError then butlast (fetched s') else fetched s')
          @ (if r = Inr OSError \<and> fetched s' \<noteq> []
             then left_behind w dest_root (last (fetched s')) else [])"
  using assms
proof (cases rule: crawl_cases)
  case (Malformed s0 path rest data)
  then show ?thesis
    by (simp add: crawl_inv_def map_filter_append List.map_filter_simps stored_Some)
qed (simp_all add: crawl_inv_def initial_state_def List.map_filter_simps)

lemma reaches_crawl_inv:
  "reaches w module dest_root limit s \<Longrightarrow> crawl_inv w dest_root limit s"
  by (induction rule: reaches.induct) (auto intro: crawl_inv_initial crawl_inv_step)

lemma reaches_within_limit:
  assumes "reaches w module dest_root (Some l) s"
  shows "int (length (fetched s)) \<le> max 0 l"
  using reaches_crawl_inv [OF assms]
  by (auto simp: crawl_inv_def over_limit_def distinct_card)

lemma reaches_first:
  assumes "loop_body w module dest_root limit (''documentation/'' @ module)
             (initial_state module\<lparr>queue := []\<rparr>) = Continue t"
  shows "reaches w module dest_root limit t"
  using reaches.again [OF reaches.start, of module "''documentation/'' @ module" "[]" w dest_root limit t]
    assms
  by (simp add: initial_state_def)

section \<open>Scope and termination\<close>

lemma in_scope_paths_scope:
  assumes "module \<noteq> []" "last module \<noteq> CHR ''/''" "p \<in> set (in_scope_paths module refs)"
  shows "startswith p (''documentation/'' @ module)"
  using assms strip_in_scope by (auto simp: in_scope_paths_def)

lemma enqueue_references_scope:
  assumes "module \<noteq> []" "last module \<noteq> CHR ''/''"
    "enqueue_references module data [] = Inr x" "p \<in> set x"
  shows "startswith p (''documentation/'' @ module)"
  using assms in_scope_paths_scope [of module p]
  by (auto simp: enqueue_references_def foldl_enqueue_ref split: json.splits)

lemma scope_inv_step:
  assumes m: "module \<noteq> []" "last module \<noteq> CHR ''/''"
    and I: "scope_inv module s" and q: "queue s = path # rest"
    and b: "loop_body w module dest_root limit path (s\<lparr>queue := rest\<rparr>) = Continue t"
  shows "scope_inv module t"
proof (cases w module dest_root limit path "s\<lparr>queue := rest\<rparr>" rule: loop_body_cases)
  case Visited
  then show ?thesis using I q b by (auto simp: scope_inv_def)
next
  case Failed
  then show ?thesis using I q b by (auto simp: scope_inv_def)
next
  case (Saved data x)
  then show ?thesis using I q b enqueue_references_scope [OF m Saved(5)]
    by (auto simp: scope_inv_def)
qed (use b in simp_all)

lemma card_Diff_insert_less:
  assumes "finite S" "p \<in> S" "p \<notin> V"
  shows "card (S - insert p V) < card (S - V)"
proof -
  have "S - insert p V \<subset> S - V" using assms by auto
  then show ?thesis using assms(1) by (intro psubset_card_mono) auto
qed

lemma crawl_loop_terminates:
  assumes fin: "finite S"
    and closed: "\<forall>p \<in> S. \<forall>data. urlopen w (url_of p) = Response data \<longrightarrow>
                  set (links module data) \<subseteq> S"
    and inS: "set (queue s) \<union> visited s \<subseteq> S"
  shows "\<exists>res. crawl_loop w module dest_root limit s = Some res"
proof -
  have "wf (inv_image (less_than <*lex*> less_than)
          (\<lambda>s. (card (S - visited s), length (queue s))))"
    by (intro wf_inv_image wf_lex_prod wf_less_than)
  then show ?thesis
    using inS
proof (induct s rule: wf_induct_rule)
  case (less s)
  show ?case
  proof (cases "queue s")
    case Nil
    then show ?thesis by (simp add: crawl_loop_Nil)
  next
    case (Cons path rest)
    have pS: "path \<in> S" and restS: "set rest \<subseteq> S" and vS: "visited s \<subseteq> S"
      using less.prems Cons by auto
    note unfold = crawl_loop_Cons [OF Cons, of w module dest_root limit]
    show ?thesis
    proof (cases w module dest_root limit path "s\<lparr>queue := rest\<rparr>" rule: loop_body_cases)
      case Visited
      have "\<exists>res. crawl_loop w module dest_root limit (s\<lparr>queue := rest\<rparr>) = Some res"
        using Cons restS vS by (intro less.hyps) auto
      then show ?thesis using unfold Visited by simp
    next
      case (Limit l)
      then show ?thesis using unfold by simp
    next
      case Failed
      let ?t = "s\<lparr>queue := rest, visited := insert path (visited s),
                  fetched := fetched s @ [path], printed := printed s @ [report w path]\<rparr>"
      have "card (S - insert path (visited s)) < card (S - visited s)"
        using card_Diff_insert_less [OF fin pS] Failed(1) by simp
      then have "\<exists>res. crawl_loop w module dest_root limit ?t = Some res"
        using restS vS pS by (intro less.hyps) auto
      then show ?thesis using unfold Failed by simp
    next
      case (WriteFails data)
      then show ?thesis using unfold by simp
    next
      case (Malformed data e)
      then show ?thesis using unfold by simp
    next
      case (Saved data x)
      let ?t = "s\<lparr>queue := rest @ x, visited := insert path (visited s),
                  fetched := fetched s @ [path],
                  written := written s @ [(file_path_of dest_root path, Document data)],
                  printed := printed s @ [report w path]\<rparr>"
      have "set x \<subseteq> S"
        using closed pS Saved(3) enqueue_references_links [OF Saved(5)] by blast
      moreover have "card (S - insert path (visited s)) < card (S - visited s)"
        using card_Diff_insert_less [OF fin pS] Saved(1) by simp
      ultimately have "\<exists>res. crawl_loop w module dest_root limit ?t = Some res"
        using restS vS pS by (intro less.hyps) auto
      then show ?thesis using unfold Saved by simp
    qed
  qed
qed
qed

lemma reaches_scope_inv:
  assumes "module \<noteq> []" "last module \<noteq> CHR ''/''"
  shows "reaches w module dest_root limit s \<Longrightarrow> scope_inv module s"
proof (induction rule: reaches.induct)
  case start
  show ?case by (simp add: scope_inv_def initial_state_def startswith_def)
next
  case (again s path rest t)
  then show ?case using scope_inv_step [OF assms] by blast
qed

lemma final_scope:
  assumes m: "module \<noteq> []" "last module \<noteq> CHR ''/''"
    and run: "fetch_module w module dest_root limit = Some (r, s')"
    and p: "path \<in> set (fetched s') \<union> visited s' \<union> set (queue s')"
  shows "startswith path (''documentation/'' @ module)"
proof -
  have J0: "scope_inv module (initial_state module)"
    by (simp add: scope_inv_def initial_state_def startswith_def)
  show ?thesis
  proof (cases rule: crawl_final [where J = "scope_inv module", OF run J0,
        consumes 0, case_names Step Makedirs Exit Limit WriteFails Malformed])
    case (Step s path rest t)
    then show ?case using scope_inv_step [OF m] by blast
  next
    case Makedirs
    then show ?thesis using p by (simp add: initial_state_def)
  next
    case Exit
    then show ?thesis using p by (auto simp: crawl_inv_def scope_inv_def)
  next
    case (Limit s0 path' rest l)
    then show ?thesis using p by (auto simp: crawl_inv_def scope_inv_def)
  next
    case (WriteFails s0 path' rest data)
    then show ?thesis using p by (auto simp: crawl_inv_def scope_inv_def)
  next
    case (Malformed s0 path' rest data e)
    then show ?thesis using p by (auto simp: crawl_inv_def scope_inv_def)
  qed
qed

section \<open>Example runs\<close>

lemma run_widgets:
  "fetch_module widgets_site ''Widgets'' ''out'' None = Some (Inl PyNone, widgets_final)"
  by code_simp

lemma run_flaky:
  "fetch_module flaky_site ''Widgets'' ''out'' None = Some (Inl PyNone, flaky_final)"
  by code_simp

lemma run_gadget_unwritable:
  "fetch_module gadget_unwritable ''Widgets'' ''out'' None = Some (Inr OSError, gadget_aborted)"
  by code_simp

lemma run_flaky_limited:
  "fetch_module flaky_site ''Widgets'' ''out'' (Some 1) = Some (Inl PyNone, flaky_limited)"
  by code_simp

lemma reaches_widgets: "reaches widgets_site ''Widgets'' ''out'' None widgets_after_seed"
proof (rule reaches_first)
  show "loop_body widgets_site ''Widgets'' ''out'' None (''documentation/'' @ ''Widgets'')
     (initial_state ''Widgets''\<lparr>queue := []\<rparr>) = Continue widgets_after_seed"
    by code_simp
qed


lemma reaches_flaky_limited: "reaches flaky_site ''Widgets'' ''out'' (Some 1) flaky_after_seed"
proof (rule reaches_first)
  show "loop_body flaky_site ''Widgets'' ''out'' (Some 1) (''documentation/'' @ ''Widgets'')
     (initial_state ''Widgets''\<lparr>queue := []\<rparr>) = Continue flaky_after_seed"
    by code_simp
qed

lemma reaches_gadget_unwritable:
  "reaches gadget_unwritable ''Widgets'' ''out'' None widgets_after_seed"
proof (rule reaches_first)
  show "loop_body gadget_unwritable ''Widgets'' ''out'' None (''documentation/'' @ ''Widgets'')
     (initial_state ''Widgets''\<lparr>queue := []\<rparr>) = Continue widgets_after_seed"
    by code_simp
qed

section \<open>The crawler: properties of a run\<close>

text \<open>
  C1 (as the code has it). \<open>fetch_module\<close> returns no pair of counts: whenever it returns,
  it returns \<open>None\<close>. The two counts are only printed: the number of \<open>Saved\<close> lines is the
  number of paths whose fetch succeeded, and the number of \<open>HTTPError\<close> and \<open>Error\<close> lines is
  the number of paths whose fetch failed.
\<close>

theorem fetch_module_returns_none:
  assumes run: "fetch_module w module dest_root limit = Some (Inl v, s')"
  shows "v = PyNone
    \<and> length (filter (\<lambda>line. startswith line ''Saved '') (printed s')) =
        length (filter (responded w) (fetched s'))
    \<and> length (filter (\<lambda>line. startswith line ''HTTPError '' \<or> startswith line ''Error '')
          (printed s')) = length (filter (\<lambda>p. \<not> responded w p) (fetched s'))"
  using run
proof (cases rule: crawl_cases)
  case Exit
  then show ?thesis
    using count_saved [of w "fetched s'"] count_errors [of w "fetched s'"]
    by (simp add: crawl_inv_def)
next
  case (Limit s0 path rest l)
  then show ?thesis
    using count_saved [of w "fetched s0"] count_errors [of w "fetched s0"]
    by (simp add: crawl_inv_def limit_line_other)
qed simp_all

theorem fetch_module_returns_none_witness:
  "fetch_module flaky_site ''Widgets'' ''out'' None = Some (Inl PyNone, flaky_final)
   \<and> length (filter (\<lambda>line. startswith line ''Saved '') (printed flaky_final)) = 1
   \<and> length (filter (responded flaky_site) (fetched flaky_final)) = 1
   \<and> length (filter (\<lambda>line. startswith line ''HTTPError '' \<or> startswith line ''Error '')
         (printed flaky_final)) = 2
   \<and> length (filter (\<lambda>p. \<not> responded flaky_site p) (fetched flaky_final)) = 2"
proof -
  have saved: "length (filter (\<lambda>line. startswith line ''Saved '') (printed flaky_final)) = 1"
    by code_simp
  have errors: "length (filter (\<lambda>line. startswith line ''HTTPError '' \<or> startswith line ''Error '')
         (printed flaky_final)) = 2"
    by code_simp
  show ?thesis
    using fetch_module_returns_none [OF run_flaky] run_flaky saved errors by simp
qed

theorem fetch_module_returns_none_counterexample:
  "map_option fst (fetch_module widgets_site ''Widgets'' ''out'' None) = Some (Inl PyNone)
   \<and> PyNone \<noteq> PyTuple [PyInt 2, PyInt 0]"
  by (simp add: run_widgets)

text \<open>
  C2 (as the code has it). A failure to write the file of a fetched document is not caught.
  When the loop comes to such a path, the run ends there with \<open>OSError\<close>: no line is printed
  for it and the rest of the queue is left. So the loop never goes on past a failed write,
  and in the state a run ends in, a fetched path whose write failed is the last one fetched
  and has no line printed.
\<close>

theorem write_failure_aborts:
  "(queue s = path # rest \<and> path \<notin> visited s \<and> \<not> over_limit limit (insert path (visited s))
      \<and> urlopen w (url_of path) = Response data
      \<and> write_fails w (file_path_of dest_root path) \<longrightarrow>
    crawl_loop w module dest_root limit s =
      Some (Inr OSError,
        s\<lparr>queue := rest, visited := insert path (visited s), fetched := fetched s @ [path],
          written := written s @ left_behind w dest_root path\<rparr>))
   \<and> (reaches w module dest_root limit t \<longrightarrow>
        (\<forall>q \<in> set (fetched t). responded w q \<longrightarrow> \<not> write_fails w (file_path_of dest_root q)))
   \<and> (fetch_module w module dest_root limit = Some (r, s') \<and> p \<in> set (fetched s')
        \<and> responded w p \<and> write_fails w (file_path_of dest_root p) \<longrightarrow>
        r = Inr OSError \<and> fetched s' \<noteq> [] \<and> last (fetched s') = p
        \<and> printed s' = map (report w) (butlast (fetched s')))"
proof (intro conjI impI ballI)
  assume a: "queue s = path # rest \<and> path \<notin> visited s
      \<and> \<not> over_limit limit (insert path (visited s))
      \<and> urlopen w (url_of path) = Response data
      \<and> write_fails w (file_path_of dest_root path)"
  then have "loop_body w module dest_root limit path (s\<lparr>queue := rest\<rparr>) =
      Raise OSError
        (s\<lparr>queue := rest, visited := insert path (visited s), fetched := fetched s @ [path],
          written := written s @ left_behind w dest_root path\<rparr>)"
    using loop_body_write_fails [of path "s\<lparr>queue := rest\<rparr>" limit w data dest_root module]
    by simp
  then show "crawl_loop w module dest_root limit s =
      Some (Inr OSError,
        s\<lparr>queue := rest, visited := insert path (visited s), fetched := fetched s @ [path],
          written := written s @ left_behind w dest_root path\<rparr>)"
    using a crawl_loop_Cons [of s path rest w module dest_root limit] by simp
next
  fix q
  assume "reaches w module dest_root limit t" "q \<in> set (fetched t)" "responded w q"
  then show "\<not> write_fails w (file_path_of dest_root q)"
    using reaches_crawl_inv [of w module dest_root limit t] by (simp add: crawl_inv_def)
next
  assume a: "fetch_module w module dest_root limit = Some (r, s') \<and> p \<in> set (fetched s')
        \<and> responded w p \<and> write_fails w (file_path_of dest_root p)"
  then have run: "fetch_module w module dest_root limit = Some (r, s')"
    and p: "p \<in> set (fetched s')" and ok: "responded w p"
    and wf: "write_fails w (file_path_of dest_root p)"
    by simp_all
  have "r = Inr OSError \<and> fetched s' \<noteq> [] \<and> last (fetched s') = p
        \<and> printed s' = map (report w) (butlast (fetched s'))"
    using run
  proof (cases rule: crawl_cases)
    case Makedirs
    then show ?thesis using p by (simp add: initial_state_def)
  next
    case Exit
    then show ?thesis using p ok wf by (auto simp: crawl_inv_def)
  next
    case (Limit s0 path' rest' l)
    then show ?thesis using p ok wf by (auto simp: crawl_inv_def)
  next
    case (WriteFails s0 path' rest' data')
    then have "p = path'" using p ok wf by (auto simp: crawl_inv_def)
    then show ?thesis using WriteFails by (simp add: crawl_inv_def)
  next
    case (Malformed s0 path' rest' data')
    then show ?thesis using p ok wf by (auto simp: crawl_inv_def)
  qed
  then show "r = Inr OSError" "fetched s' \<noteq> []" "last (fetched s') = p"
    "printed s' = map (report w) (butlast (fetched s'))"
    by simp_all
qed

theorem write_failure_aborts_witness:
  "queue widgets_after_seed = ''documentation/Widgets/Gadget'' # []
   \<and> ''documentation/Widgets/Gadget'' \<notin> visited widgets_after_seed
   \<and> urlopen gadget_unwritable (url_of ''documentation/Widgets/Gadget'') =
       Response (doc [''/documentation/Widgets''])
   \<and> write_fails gadget_unwritable (file_path_of ''out'' ''documentation/Widgets/Gadget'')
   \<and> crawl_loop gadget_unwritable ''Widgets'' ''out'' None widgets_after_seed =
       Some (Inr OSError, gadget_aborted)
   \<and> reaches gadget_unwritable ''Widgets'' ''out'' None widgets_after_seed
   \<and> ''documentation/Widgets'' \<in> set (fetched widgets_after_seed)
   \<and> responded gadget_unwritable ''documentation/Widgets''
   \<and> \<not> write_fails gadget_unwritable (file_path_of ''out'' ''documentation/Widgets'')
   \<and> fetch_module gadget_unwritable ''Widgets'' ''out'' None = Some (Inr OSError, gadget_aborted)
   \<and> ''documentation/Widgets/Gadget'' \<in> set (fetched gadget_aborted)
   \<and> responded gadget_unwritable ''documentation/Widgets/Gadget''
   \<and> last (fetched gadget_aborted) = ''documentation/Widgets/Gadget''
   \<and> printed gadget_aborted = map (report gadget_unwritable) (butlast (fetched gadget_aborted))"
proof -
  let ?G = "''documentation/Widgets/Gadget''"
  have q: "queue widgets_after_seed = ?G # []" and nv: "?G \<notin> visited widgets_after_seed"
    and nl: "\<not> over_limit None (insert ?G (visited widgets_after_seed))"
    and w0: "''documentation/Widgets'' \<in> set (fetched widgets_after_seed)"
    by (simp_all add: widgets_after_seed_def over_limit_def)
  have ok: "urlopen gadget_unwritable (url_of ?G) = Response (doc [''/documentation/Widgets''])"
    by code_simp
  have wf: "write_fails gadget_unwritable (file_path_of ''out'' ?G)"
    by code_simp
  have r0: "responded gadget_unwritable ''documentation/Widgets''"
    by code_simp
  have rG: "responded gadget_unwritable ?G"
    using ok by (simp add: responded_def)
  have p: "?G \<in> set (fetched gadget_aborted)"
    by (simp add: gadget_aborted_def)
  have st: "widgets_after_seed\<lparr>queue := [], visited := insert ?G (visited widgets_after_seed),
      fetched := fetched widgets_after_seed @ [?G],
      written := written widgets_after_seed @ left_behind gadget_unwritable ''out'' ?G\<rparr> =
      gadget_aborted"
    by code_simp
  note t = write_failure_aborts [of widgets_after_seed ?G "[]" None gadget_unwritable
      "doc [''/documentation/Widgets'']" "''out''" "''Widgets''" widgets_after_seed
      "Inr OSError" gadget_aborted ?G]
  have c1: "crawl_loop gadget_unwritable ''Widgets'' ''out'' None widgets_after_seed =
       Some (Inr OSError, gadget_aborted)"
    using t q nv nl ok wf st by simp
  have c2: "\<not> write_fails gadget_unwritable (file_path_of ''out'' ''documentation/Widgets'')"
    using t reaches_gadget_unwritable w0 r0 by blast
  have c3: "last (fetched gadget_aborted) = ?G
      \<and> printed gadget_aborted = map (report gadget_unwritable) (butlast (fetched gadget_aborted))"
    using t run_gadget_unwritable p rG wf by blast
  show ?thesis
    using q nv ok wf c1 reaches_gadget_unwritable w0 r0 c2 run_gadget_unwritable p rG c3
    by blast
qed

theorem write_failure_aborts_counterexample:
  "fetch_module unwritable_site ''Widgets'' ''out'' None =
     Some (Inr OSError,
       \<lparr>queue = [''documentation/Widgets/Gizmo''],
        visited = {''documentation/Widgets'', ''documentation/Widgets/Gadget''},
        fetched = [''documentation/Widgets'', ''documentation/Widgets/Gadget''],
        written =
          [(''out/documentation_Widgets.json'',
            Document (doc [''/documentation/Widgets/Gadget'', ''/documentation/Widgets/Gizmo'']))],
        printed = [''Saved documentation/Widgets'']\<rparr>)"
  by code_simp

text \<open>
  C3. Scope containment does not hold: the test \<open>startswith("/documentation/<module>")\<close> lets
  through a url of another module whose name begins with the module's name. Crawling
  \<open>Swift\<close> from a seed that references \<open>/documentation/SwiftUI/View\<close>, the path
  \<open>documentation/SwiftUI/View\<close> is fetched and stored, although it does not lie under
  \<open>documentation/Swift/\<close>.
\<close>

theorem scope_leak:
  "fetch_module swift_site ''Swift'' ''out'' None =
     Some (Inl PyNone,
       \<lparr>queue = [],
        visited = {''documentation/Swift'', ''documentation/SwiftUI/View''},
        fetched = [''documentation/Swift'', ''documentation/SwiftUI/View''],
        written =
          [(''out/documentation_Swift.json'', Document (doc [''/documentation/SwiftUI/View''])),
           (''out/documentation_SwiftUI_View.json'', Document (doc []))],
        printed = [''Saved documentation/Swift'', ''Saved documentation/SwiftUI/View'']\<rparr>)
   \<and> ''documentation/SwiftUI/View'' \<noteq> ''documentation/Swift''
   \<and> \<not> startswith ''documentation/SwiftUI/View'' ''documentation/Swift/''"
  by code_simp

text \<open>
  What the test does give is the prefix as a string: for a module that is not empty and does
  not end with a separator, every path that is fetched, marked visited or in the queue
  begins with the characters \<open>documentation/<module>\<close>.
\<close>

lemma prefix_containment:
  assumes m: "module \<noteq> []" "last module \<noteq> CHR ''/''"
  shows "(reaches w module dest_root limit s \<longrightarrow>
            (\<forall>p \<in> set (fetched s) \<union> visited s \<union> set (queue s).
               startswith p (''documentation/'' @ module)))
       \<and> (fetch_module w module dest_root limit = Some (r, s') \<longrightarrow>
            (\<forall>p \<in> set (fetched s') \<union> visited s' \<union> set (queue s').
               startswith p (''documentation/'' @ module)))"
proof (intro conjI impI ballI)
  fix p
  assume "reaches w module dest_root limit s" "p \<in> set (fetched s) \<union> visited s \<union> set (queue s)"
  then show "startswith p (''documentation/'' @ module)"
    using reaches_scope_inv [OF m, of w dest_root limit s] reaches_crawl_inv [of w module dest_root limit s]
    by (auto simp: scope_inv_def crawl_inv_def)
next
  fix p
  assume "fetch_module w module dest_root limit = Some (r, s')"
    "p \<in> set (fetched s') \<union> visited s' \<union> set (queue s')"
  then show "startswith p (''documentation/'' @ module)"
    using final_scope [OF m] by blast
qed

text \<open>
  C4. With a limit, the loop stops as soon as the visited set, with the path just added,
  has more entries than the limit: nothing more is fetched and the rest of the queue is
  left. With limit 1 and a seed whose document makes the crawler enqueue two paths, the
  first of them not the seed, only the seed is fetched. With limit \<open>l\<close> at most \<open>l\<close> paths
  are fetched, in the state a run ends in and in every state the loop passes through.
\<close>

theorem limit_stops_crawl:
  "(queue s = path # rest \<and> path \<notin> visited s \<and> l < int (card (insert path (visited s))) \<longrightarrow>
      crawl_loop w module dest_root (Some l) s =
        Some (Inl PyNone, s\<lparr>queue := rest, visited := insert path (visited s),
                              printed := printed s @ [limit_line l module]\<rparr>))
   \<and> (fetch_module w module dest_root (Some l) = Some (r, s') \<longrightarrow>
         int (length (fetched s')) \<le> max 0 l)
   \<and> (\<not> makedirs_fails w dest_root
       \<and> urlopen w (url_of (''documentation/'' @ module)) = Response data
       \<and> \<not> write_fails w (file_path_of dest_root (''documentation/'' @ module))
       \<and> enqueue_references module data [] = Inr [a, b]
       \<and> a \<noteq> ''documentation/'' @ module \<longrightarrow>
       fetch_module w module dest_root (Some 1) =
         Some (Inl PyNone,
           \<lparr>queue = [b], visited = {''documentation/'' @ module, a},
            fetched = [''documentation/'' @ module],
            written = [(file_path_of dest_root (''documentation/'' @ module), Document data)],
            printed = [''Saved '' @ ''documentation/'' @ module, limit_line 1 module]\<rparr>))
   \<and> (reaches w module dest_root (Some l) t \<longrightarrow> int (length (fetched t)) \<le> max 0 l)"
proof (intro conjI impI)
  assume a: "queue s = path # rest \<and> path \<notin> visited s \<and> l < int (card (insert path (visited s)))"
  then have "loop_body w module dest_root (Some l) path (s\<lparr>queue := rest\<rparr>) =
      Break (s\<lparr>queue := rest, visited := insert path (visited s),
               printed := printed s @ [limit_line l module]\<rparr>)"
    using loop_body_limit [of path "s\<lparr>queue := rest\<rparr>" "Some l" l w module dest_root] by simp
  then show "crawl_loop w module dest_root (Some l) s =
        Some (Inl PyNone, s\<lparr>queue := rest, visited := insert path (visited s),
                              printed := printed s @ [limit_line l module]\<rparr>)"
    using a crawl_loop_Cons [of s path rest w module dest_root "Some l"] by simp
next
  assume "fetch_module w module dest_root (Some l) = Some (r, s')"
  then show "int (length (fetched s')) \<le> max 0 l" by (rule fetched_within_limit)
next
  assume "\<not> makedirs_fails w dest_root
       \<and> urlopen w (url_of (''documentation/'' @ module)) = Response data
       \<and> \<not> write_fails w (file_path_of dest_root (''documentation/'' @ module))
       \<and> enqueue_references module data [] = Inr [a, b]
       \<and> a \<noteq> ''documentation/'' @ module"
  then show "fetch_module w module dest_root (Some 1) =
         Some (Inl PyNone,
           \<lparr>queue = [b], visited = {''documentation/'' @ module, a},
            fetched = [''documentation/'' @ module],
            written = [(file_path_of dest_root (''documentation/'' @ module), Document data)],
            printed = [''Saved '' @ ''documentation/'' @ module, limit_line 1 module]\<rparr>)"
    using limit_scenario by blast
next
  assume "reaches w module dest_root (Some l) t"
  then show "int (length (fetched t)) \<le> max 0 l" by (rule reaches_within_limit)
qed

theorem limit_stops_crawl_witness:
  "crawl_loop flaky_site ''Widgets'' ''out'' (Some 1)
       \<lparr>queue = [''documentation/Widgets/Gadget'', ''documentation/Widgets/Gizmo''],
        visited = {''documentation/Widgets''}, fetched = [''documentation/Widgets''],
        written = [], printed = []\<rparr> =
     Some (Inl PyNone,
       \<lparr>queue = [''documentation/Widgets/Gizmo''],
        visited = {''documentation/Widgets/Gadget'', ''documentation/Widgets''},
        fetched = [''documentation/Widgets''],
        written = [], printed = [limit_line 1 ''Widgets'']\<rparr>)
   \<and> fetch_module flaky_site ''Widgets'' ''out'' (Some 1) = Some (Inl PyNone, flaky_limited)
   \<and> fetch_module flaky_site ''Widgets'' ''out'' (Some 1) =
       Some (Inl PyNone,
         \<lparr>queue = [''documentation/Widgets/Gizmo''],
          visited = {''documentation/'' @ ''Widgets'', ''documentation/Widgets/Gadget''},
          fetched = [''documentation/'' @ ''Widgets''],
          written = [(file_path_of ''out'' (''documentation/'' @ ''Widgets''),
                      Document (doc [''/documentation/Widgets/Gadget'', ''/documentation/Widgets/Gizmo/'',
                           ''/documentation/Other/Thing'']))],
          printed = [''Saved '' @ ''documentation/'' @ ''Widgets'', limit_line 1 ''Widgets'']\<rparr>)
   \<and> int (length (fetched flaky_limited)) \<le> max 0 1
   \<and> reaches flaky_site ''Widgets'' ''out'' (Some 1) flaky_after_seed
   \<and> int (length (fetched flaky_after_seed)) \<le> max 0 1
   \<and> fetched flaky_limited = [''documentation/Widgets'']
   \<and> enqueue_references ''Widgets''
         (doc [''/documentation/Widgets/Gadget'', ''/documentation/Widgets/Gizmo/'',
               ''/documentation/Other/Thing'']) [] =
       Inr [''documentation/Widgets/Gadget'', ''documentation/Widgets/Gizmo'']"
proof -
  let ?s = "\<lparr>queue = [''documentation/Widgets/Gadget'', ''documentation/Widgets/Gizmo''],
        visited = {''documentation/Widgets''}, fetched = [''documentation/Widgets''],
        written = [], printed = []\<rparr>"
  let ?data = "doc [''/documentation/Widgets/Gadget'', ''/documentation/Widgets/Gizmo/'',
               ''/documentation/Other/Thing'']"
  have refs: "enqueue_references ''Widgets'' ?data [] =
       Inr [''documentation/Widgets/Gadget'', ''documentation/Widgets/Gizmo'']"
    by code_simp
  have h1: "queue ?s = ''documentation/Widgets/Gadget'' # [''documentation/Widgets/Gizmo'']
      \<and> ''documentation/Widgets/Gadget'' \<notin> visited ?s
      \<and> 1 < int (card (insert ''documentation/Widgets/Gadget'' (visited ?s)))"
    by simp
  have h3: "\<not> makedirs_fails flaky_site ''out''
       \<and> urlopen flaky_site (url_of (''documentation/'' @ ''Widgets'')) = Response ?data
       \<and> \<not> write_fails flaky_site (file_path_of ''out'' (''documentation/'' @ ''Widgets''))
       \<and> enqueue_references ''Widgets'' ?data [] =
           Inr [''documentation/Widgets/Gadget'', ''documentation/Widgets/Gizmo'']
       \<and> ''documentation/Widgets/Gadget'' \<noteq> ''documentation/'' @ ''Widgets''"
    using refs by (simp add: flaky_site_def site_def url_of_def BASE_URL_def write_fails_def)
  have f: "fetched flaky_limited = [''documentation/Widgets'']"
    by (simp add: flaky_limited_def)
  note t = limit_stops_crawl [of ?s "''documentation/Widgets/Gadget''"
      "[''documentation/Widgets/Gizmo'']" 1 flaky_site "''Widgets''" "''out''"
      "Inl PyNone" flaky_limited ?data "''documentation/Widgets/Gadget''"
      "''documentation/Widgets/Gizmo''" flaky_after_seed]
  have c1: "crawl_loop flaky_site ''Widgets'' ''out'' (Some 1) ?s =
     Some (Inl PyNone,
       \<lparr>queue = [''documentation/Widgets/Gizmo''],
        visited = {''documentation/Widgets/Gadget'', ''documentation/Widgets''},
        fetched = [''documentation/Widgets''],
        written = [], printed = [limit_line 1 ''Widgets'']\<rparr>)"
    using t h1 by simp
  have c2: "int (length (fetched flaky_limited)) \<le> max 0 1"
    using t run_flaky_limited by blast
  have c3: "fetch_module flaky_site ''Widgets'' ''out'' (Some 1) =
       Some (Inl PyNone,
         \<lparr>queue = [''documentation/Widgets/Gizmo''],
          visited = {''documentation/'' @ ''Widgets'', ''documentation/Widgets/Gadget''},
          fetched = [''documentation/'' @ ''Widgets''],
          written = [(file_path_of ''out'' (''documentation/'' @ ''Widgets''), Document ?data)],
          printed = [''Saved '' @ ''documentation/'' @ ''Widgets'', limit_line 1 ''Widgets'']\<rparr>)"
    using t h3 by blast
  have c4: "int (length (fetched flaky_after_seed)) \<le> max 0 1"
    using t reaches_flaky_limited by blast
  show ?thesis
    using c1 c2 c3 c4 run_flaky_limited reaches_flaky_limited f refs by blast
qed

text \<open>
  C5. When the paths that can be reached lie in a finite set (it holds the seed, and the
  links of every document fetched from a path of the set lie in it), the run ends, cycles
  or not. No path is fetched twice, in the state a run ends in and in every state the loop
  passes through.
\<close>

theorem crawl_terminates:
  "(finite S \<and> ''documentation/'' @ module \<in> S
      \<and> (\<forall>p \<in> S. \<forall>data. urlopen w (url_of p) = Response data \<longrightarrow>
             set (links module data) \<subseteq> S) \<longrightarrow>
      (\<exists>r s'. fetch_module w module dest_root limit = Some (r, s')))
   \<and> (fetch_module w module dest_root limit = Some (r, s') \<longrightarrow> distinct (fetched s'))
   \<and> (reaches w module dest_root limit t \<longrightarrow> distinct (fetched t))"
proof (intro conjI impI)
  assume a: "finite S \<and> ''documentation/'' @ module \<in> S
      \<and> (\<forall>p \<in> S. \<forall>data. urlopen w (url_of p) = Response data \<longrightarrow>
             set (links module data) \<subseteq> S)"
  have "\<exists>res. fetch_module w module dest_root limit = Some res"
  proof (cases "makedirs_fails w dest_root")
    case True
    then show ?thesis by (simp add: fetch_module_def)
  next
    case False
    have "set (queue (initial_state module)) \<union> visited (initial_state module) \<subseteq> S"
      using a by (simp add: initial_state_def)
    then have "\<exists>res. crawl_loop w module dest_root limit (initial_state module) = Some res"
      using a by (intro crawl_loop_terminates [of S]) auto
    then show ?thesis using False by (simp add: fetch_module_def)
  qed
  then show "\<exists>r s'. fetch_module w module dest_root limit = Some (r, s')"
    by force
next
  assume "fetch_module w module dest_root limit = Some (r, s')"
  then show "distinct (fetched s')" by (rule fetched_distinct)
next
  assume "reaches w module dest_root limit t"
  then show "distinct (fetched t)"
    using reaches_crawl_inv by (auto simp: crawl_inv_def)
qed

theorem crawl_terminates_witness:
  "finite {''documentation/Widgets'', ''documentation/Widgets/Gadget''}
   \<and> ''documentation/'' @ ''Widgets'' \<in> {''documentation/Widgets'', ''documentation/Widgets/Gadget''}
   \<and> links ''Widgets'' (doc [''/documentation/Widgets/Gadget'', ''/documentation/Other/Thing'']) =
        [''documentation/Widgets/Gadget'']
   \<and> links ''Widgets'' (doc [''/documentation/Widgets'']) = [''documentation/Widgets'']
   \<and> (\<exists>r s'. fetch_module widgets_site ''Widgets'' ''out'' None = Some (r, s'))
   \<and> fetch_module widgets_site ''Widgets'' ''out'' None = Some (Inl PyNone, widgets_final)
   \<and> fetched widgets_final = [''documentation/Widgets'', ''documentation/Widgets/Gadget'']
   \<and> distinct (fetched widgets_final)
   \<and> reaches widgets_site ''Widgets'' ''out'' None widgets_after_seed
   \<and> distinct (fetched widgets_after_seed)"
proof -
  let ?S = "{''documentation/Widgets'', ''documentation/Widgets/Gadget''}"
  have fin: "finite ?S" by simp
  have seed: "''documentation/'' @ ''Widgets'' \<in> ?S" by simp
  have l1: "links ''Widgets'' (doc [''/documentation/Widgets/Gadget'', ''/documentation/Other/Thing'']) =
        [''documentation/Widgets/Gadget'']"
    by code_simp
  have l2: "links ''Widgets'' (doc [''/documentation/Widgets'']) = [''documentation/Widgets'']"
    by code_simp
  have u1: "urlopen widgets_site (url_of ''documentation/Widgets'') =
      Response (doc [''/documentation/Widgets/Gadget'', ''/documentation/Other/Thing''])"
    by code_simp
  have u2: "urlopen widgets_site (url_of ''documentation/Widgets/Gadget'') =
      Response (doc [''/documentation/Widgets''])"
    by code_simp
  have closed: "\<forall>p \<in> ?S. \<forall>data. urlopen widgets_site (url_of p) = Response data \<longrightarrow>
                  set (links ''Widgets'' data) \<subseteq> ?S"
    using l1 l2 u1 u2 by auto
  have f: "fetched widgets_final = [''documentation/Widgets'', ''documentation/Widgets/Gadget'']"
    by (simp add: widgets_final_def)
  note t = crawl_terminates [of ?S "''Widgets''" widgets_site "''out''" None "Inl PyNone"
      widgets_final widgets_after_seed]
  have c1: "\<exists>r s'. fetch_module widgets_site ''Widgets'' ''out'' None = Some (r, s')"
    using t fin seed closed by blast
  have c2: "distinct (fetched widgets_final)"
    using t run_widgets by blast
  have c3: "distinct (fetched widgets_after_seed)"
    using t reaches_widgets by blast
  show ?thesis
    using fin seed l1 l2 c1 c2 c3 run_widgets reaches_widgets f by blast
qed

text \<open>
  C6 (as the code has it). From a fetched document whose \<open>references\<close> is a dict, the loop
  appends to the queue the stripped url of every reference value that is a dict with a
  \<open>url\<close> string beginning with \<open>/documentation/<module>\<close>, the leading separator included,
  in order and whether or not the path is in the visited set.
\<close>

theorem references_enqueued:
  assumes "path \<notin> visited s" "\<not> over_limit limit (insert path (visited s))"
    "urlopen w (url_of path) = Response (JObj items)"
    "\<not> write_fails w (file_path_of dest_root path)"
    "dict_get items ''references'' (JObj []) = JObj references"
  shows "loop_body w module dest_root limit path s =
           Continue (s\<lparr>queue := queue s @ in_scope_paths module (map snd references),
                       visited := insert path (visited s),
                       fetched := fetched s @ [path],
                       written := written s @ [(file_path_of dest_root path, Document (JObj items))],
                       printed := printed s @ [''Saved '' @ path]\<rparr>)"
proof -
  have "enqueue_references module (JObj items) [] = Inr (in_scope_paths module (map snd references))"
    using assms(5) by (simp add: enqueue_references_def foldl_enqueue_ref)
  moreover have "report w path = ''Saved '' @ path"
    using assms(3) by (simp add: report_def)
  ultimately show ?thesis
    using loop_body_saved [OF assms(1-4), of module] by simp
qed

theorem references_enqueued_witness:
  "''documentation/Widgets'' \<notin> visited (initial_state ''Widgets''\<lparr>queue := []\<rparr>)
   \<and> \<not> over_limit None (insert ''documentation/Widgets'' (visited (initial_state ''Widgets''\<lparr>queue := []\<rparr>)))
   \<and> urlopen widgets_site (url_of ''documentation/Widgets'') =
       Response (JObj [(''references'', JObj
          [(''/documentation/Widgets/Gadget'', JObj [(''url'', JStr ''/documentation/Widgets/Gadget'')]),
           (''/documentation/Other/Thing'', JObj [(''url'', JStr ''/documentation/Other/Thing'')])])])
   \<and> \<not> write_fails widgets_site (file_path_of ''out'' ''documentation/Widgets'')
   \<and> in_scope_paths ''Widgets''
        [JObj [(''url'', JStr ''/documentation/Widgets/Gadget'')],
         JObj [(''url'', JStr ''/documentation/Other/Thing'')]] = [''documentation/Widgets/Gadget'']
   \<and> (case loop_body widgets_site ''Widgets'' ''out'' None ''documentation/Widgets''
              (initial_state ''Widgets''\<lparr>queue := []\<rparr>) of
         Continue t \<Rightarrow> queue t = [''documentation/Widgets/Gadget''] | _ \<Rightarrow> False)"
proof -
  let ?s = "initial_state ''Widgets''\<lparr>queue := []\<rparr>"
  let ?refs = "[(''/documentation/Widgets/Gadget'', JObj [(''url'', JStr ''/documentation/Widgets/Gadget'')]),
           (''/documentation/Other/Thing'', JObj [(''url'', JStr ''/documentation/Other/Thing'')])]"
  have h1: "''documentation/Widgets'' \<notin> visited ?s" by (simp add: initial_state_def)
  have h2: "\<not> over_limit None (insert ''documentation/Widgets'' (visited ?s))"
    by (simp add: over_limit_def)
  have h3: "urlopen widgets_site (url_of ''documentation/Widgets'') =
       Response (JObj [(''references'', JObj ?refs)])"
    by code_simp
  have h4: "\<not> write_fails widgets_site (file_path_of ''out'' ''documentation/Widgets'')"
    by code_simp
  have h5: "dict_get [(''references'', JObj ?refs)] ''references'' (JObj []) = JObj ?refs"
    by (simp add: dict_get_def)
  have paths: "in_scope_paths ''Widgets'' (map snd ?refs) = [''documentation/Widgets/Gadget'']"
    by code_simp
  have "case loop_body widgets_site ''Widgets'' ''out'' None ''documentation/Widgets'' ?s of
         Continue t \<Rightarrow> queue t = [''documentation/Widgets/Gadget''] | _ \<Rightarrow> False"
    using references_enqueued [OF h1 h2 h3 h4 h5, of "''Widgets''"] paths
    by (simp add: initial_state_def)
  then show ?thesis
    using h1 h2 h3 h4 paths by simp
qed

theorem references_enqueued_counterexample:
  "loop_body widgets_site ''Widgets'' ''out'' None ''documentation/Widgets/Gadget''
     \<lparr>queue = [], visited = {''documentation/Widgets''}, fetched = [''documentation/Widgets''],
      written = [], printed = []\<rparr> =
   Continue
     \<lparr>queue = [''documentation/Widgets''],
      visited = {''documentation/Widgets'', ''documentation/Widgets/Gadget''},
      fetched = [''documentation/Widgets'', ''documentation/Widgets/Gadget''],
      written = [(''out/documentation_Widgets_Gadget.json'', Document (doc [''/documentation/Widgets'']))],
      printed = [''Saved documentation/Widgets/Gadget'']\<rparr>
   \<and> enqueue_ref ''Widgets'' [] (JObj [(''url'', JStr ''documentation/Widgets/Gadget'')]) = []"
  by code_simp




text \<open>
  C8. The file name is the path with every separator replaced by an underscore, followed
  by \<open>.json\<close>; the files written are, in order, those of the paths whose fetch succeeded,
  each with the document fetched, in the state a run ends in and in every state the loop
  passes through. When the run ends in the \<open>OSError\<close> of a write, the file of the last path
  is not among them: it is missing when \<open>open\<close> raised and partial when \<open>json.dump\<close> raised.
\<close>

theorem stored_file_names:
  "replace path ''/'' ''_'' @ ''.json'' =
     map (\<lambda>c. if c = CHR ''/'' then CHR ''_'' else c) path @ ''.json''
   \<and> (fetch_module w module dest_root limit = Some (r, s') \<longrightarrow>
        written s' =
          List.map_filter (stored w dest_root)
            (if r = Inr OSError then butlast (fetched s') else fetched s')
          @ (if r = Inr OSError \<and> fetched s' \<noteq> []
             then left_behind w dest_root (last (fetched s')) else []))
   \<and> (reaches w module dest_root limit t \<longrightarrow>
        written t = List.map_filter (stored w dest_root) (fetched t))"
proof (intro conjI impI)
  show "replace path ''/'' ''_'' @ ''.json'' =
     map (\<lambda>c. if c = CHR ''/'' then CHR ''_'' else c) path @ ''.json''"
    by (simp add: replace_slash)
next
  assume "fetch_module w module dest_root limit = Some (r, s')"
  then show "written s' =
          List.map_filter (stored w dest_root)
            (if r = Inr OSError then butlast (fetched s') else fetched s')
          @ (if r = Inr OSError \<and> fetched s' \<noteq> []
             then left_behind w dest_root (last (fetched s')) else [])"
    by (rule written_final)
next
  assume "reaches w module dest_root limit t"
  then show "written t = List.map_filter (stored w dest_root) (fetched t)"
    using reaches_crawl_inv by (auto simp: crawl_inv_def)
qed

theorem stored_file_names_witness:
  "fetch_module widgets_site ''Widgets'' ''out'' None = Some (Inl PyNone, widgets_final)
   \<and> written widgets_final = List.map_filter (stored widgets_site ''out'') (fetched widgets_final)
   \<and> map fst (written widgets_final) =
       [''out/documentation_Widgets.json'', ''out/documentation_Widgets_Gadget.json'']
   \<and> replace ''documentation/Widgets/Gadget'' ''/'' ''_'' @ ''.json'' =
       ''documentation_Widgets_Gadget.json''
   \<and> reaches widgets_site ''Widgets'' ''out'' None widgets_after_seed
   \<and> written widgets_after_seed =
       List.map_filter (stored widgets_site ''out'') (fetched widgets_after_seed)"
proof -
  have n: "map fst (written widgets_final) =
       [''out/documentation_Widgets.json'', ''out/documentation_Widgets_Gadget.json'']"
    by (simp add: widgets_final_def)
  have "written widgets_final = List.map_filter (stored widgets_site ''out'') (fetched widgets_final)
      \<and> replace ''documentation/Widgets/Gadget'' ''/'' ''_'' @ ''.json'' =
       ''documentation_Widgets_Gadget.json''"
    using stored_file_names [of "''documentation/Widgets/Gadget''" widgets_site "''Widgets''" "''out''" None
        "Inl PyNone" widgets_final widgets_after_seed] run_widgets
    by simp
  moreover have "written widgets_after_seed =
       List.map_filter (stored widgets_site ''out'') (fetched widgets_after_seed)"
    using stored_file_names [of "''documentation/Widgets/Gadget''" widgets_site "''Widgets''" "''out''" None
        "Inl PyNone" widgets_final widgets_after_seed] reaches_widgets
    by blast
  ultimately show ?thesis using run_widgets reaches_widgets n by blast
qed

section \<open>The file-sync utility\<close>

lemma hd_sort_key_min:
  assumes "xs \<noteq> []"
  shows "hd (sort_key f xs) \<in> set xs \<and> (\<forall>x \<in> set xs. f (hd (sort_key f xs)) \<le> f x)"
proof -
  obtain y ys where ys: "sort_key f xs = y # ys"
    using assms by (cases "sort_key f xs") (auto dest: arg_cong [where f = length])
  have s: "sorted (map f (y # ys))" using sorted_sort_key [of f xs] ys by simp
  have m: "set (y # ys) = set xs" using set_sort [of f xs] ys by simp
  have "y \<in> set xs" using m by auto
  moreover have "\<forall>x \<in> set xs. f y \<le> f x"
    using s m by auto
  ultimately show ?thesis using ys by simp
qed

text \<open>
  C9. When the exact target is absent from the raw directory, \<open>copy_file\<close> looks at the
  listed names that start with the target's name without its \<open>.json\<close>. If there is one,
  it copies one of minimal length and returns its name (or raises what the copy raised);
  if there is none, or the raw directory is missing, it copies nothing and returns the
  target as missing.
\<close>

theorem copy_file_fallback:
  assumes absent: "\<not> path_exists os (os_path_join raw_dir target_name)"
    and ext: "target_name = base @ ''.json''"
  shows "(\<forall>names. listdir os raw_dir = Inr names \<longrightarrow>
            (if \<exists>name \<in> set names. startswith name base
             then \<exists>chosen \<in> set names. startswith chosen base \<and>
                    (\<forall>name \<in> set names. startswith name base \<longrightarrow> length chosen \<le> length name) \<and>
                    copy_file os raw_dir dest_dir target_name =
                      (case copy2 os (os_path_join raw_dir chosen) (os_path_join dest_dir chosen) of
                         None \<Rightarrow> (Inr (Some chosen, None),
                                   [(os_path_join raw_dir chosen, os_path_join dest_dir chosen)])
                       | Some e \<Rightarrow> (Inl e, []))
             else copy_file os raw_dir dest_dir target_name = (Inr (None, Some target_name), [])))
       \<and> (listdir os raw_dir = Inl FileNotFoundError \<longrightarrow>
            copy_file os raw_dir dest_dir target_name = (Inr (None, Some target_name), []))"
proof (intro conjI allI impI)
  fix names
  assume l: "listdir os raw_dir = Inr names"
  let ?cands = "filter (\<lambda>name. startswith name base) names"
  let ?chosen = "hd (sort_key length ?cands)"
  show "if \<exists>name \<in> set names. startswith name base
        then \<exists>chosen \<in> set names. startswith chosen base \<and>
               (\<forall>name \<in> set names. startswith name base \<longrightarrow> length chosen \<le> length name) \<and>
               copy_file os raw_dir dest_dir target_name =
                 (case copy2 os (os_path_join raw_dir chosen) (os_path_join dest_dir chosen) of
                    None \<Rightarrow> (Inr (Some chosen, None),
                              [(os_path_join raw_dir chosen, os_path_join dest_dir chosen)])
                  | Some e \<Rightarrow> (Inl e, []))
        else copy_file os raw_dir dest_dir target_name = (Inr (None, Some target_name), [])"
  proof (cases "?cands = []")
    case True
    then have "\<not> (\<exists>name \<in> set names. startswith name base)"
      by (simp add: filter_empty_conv)
    moreover have "copy_file os raw_dir dest_dir target_name = (Inr (None, Some target_name), [])"
      using absent l True by (simp add: copy_file_def ext)
    ultimately show ?thesis by simp
  next
    case False
    then have ex: "\<exists>name \<in> set names. startswith name base"
      by (simp add: filter_empty_conv)
    have m: "?chosen \<in> set ?cands \<and> (\<forall>x \<in> set ?cands. length ?chosen \<le> length x)"
      using hd_sort_key_min [OF False] by blast
    have c: "copy_file os raw_dir dest_dir target_name =
        (case copy2 os (os_path_join raw_dir ?chosen) (os_path_join dest_dir ?chosen) of
           None \<Rightarrow> (Inr (Some ?chosen, None),
                     [(os_path_join raw_dir ?chosen, os_path_join dest_dir ?chosen)])
         | Some e \<Rightarrow> (Inl e, []))"
      using absent l False by (simp add: copy_file_def ext Let_def)
    from m c have "\<exists>chosen \<in> set names. startswith chosen base \<and>
               (\<forall>name \<in> set names. startswith name base \<longrightarrow> length chosen \<le> length name) \<and>
               copy_file os raw_dir dest_dir target_name =
                 (case copy2 os (os_path_join raw_dir chosen) (os_path_join dest_dir chosen) of
                    None \<Rightarrow> (Inr (Some chosen, None),
                              [(os_path_join raw_dir chosen, os_path_join dest_dir chosen)])
                  | Some e \<Rightarrow> (Inl e, []))"
      by (intro bexI [where x = ?chosen]) auto
    with ex show ?thesis by simp
  qed
next
  assume "listdir os raw_dir = Inl FileNotFoundError"
  then show "copy_file os raw_dir dest_dir target_name = (Inr (None, Some target_name), [])"
    using absent by (simp add: copy_file_def)
qed

theorem copy_file_fallback_witness:
  "\<not> path_exists example_os (os_path_join ''raw'' ''topi.json'')
   \<and> ''topi.json'' = ''topi'' @ ''.json''
   \<and> listdir example_os ''raw'' = Inr [''topic_long.json'', ''topic.json'', ''other.json'', ''topiC.json'']
   \<and> (\<exists>name \<in> set [''topic_long.json'', ''topic.json'', ''other.json'', ''topiC.json'']. startswith name ''topi'')
   \<and> (\<exists>chosen \<in> set [''topic_long.json'', ''topic.json'', ''other.json'', ''topiC.json''].
         startswith chosen ''topi'' \<and>
         (\<forall>name \<in> set [''topic_long.json'', ''topic.json'', ''other.json'', ''topiC.json''].
            startswith name ''topi'' \<longrightarrow> length chosen \<le> length name) \<and>
         copy_file example_os ''raw'' ''essentials'' ''topi.json'' =
           (Inr (Some chosen, None),
            [(os_path_join ''raw'' chosen, os_path_join ''essentials'' chosen)]))
   \<and> copy_file example_os ''raw'' ''essentials'' ''topi.json'' =
       (Inr (Some ''topic.json'', None), [(''raw/topic.json'', ''essentials/topic.json'')])"
proof -
  have absent: "\<not> path_exists example_os (os_path_join ''raw'' ''topi.json'')"
    by (simp add: example_os_def os_path_join_def startswith_def)
  have ext: "''topi.json'' = ''topi'' @ ''.json''"
    by simp
  have listed: "listdir example_os ''raw'' =
      Inr [''topic_long.json'', ''topic.json'', ''other.json'', ''topiC.json'']"
    by (simp add: example_os_def)
  have some: "\<exists>name \<in> set [''topic_long.json'', ''topic.json'', ''other.json'', ''topiC.json''].
      startswith name ''topi''"
    by (simp add: startswith_def)
  have copies: "\<And>src dst. copy2 example_os src dst = None"
    by (simp add: example_os_def)
  have chosen: "\<exists>chosen \<in> set [''topic_long.json'', ''topic.json'', ''other.json'', ''topiC.json''].
         startswith chosen ''topi'' \<and>
         (\<forall>name \<in> set [''topic_long.json'', ''topic.json'', ''other.json'', ''topiC.json''].
            startswith name ''topi'' \<longrightarrow> length chosen \<le> length name) \<and>
         copy_file example_os ''raw'' ''essentials'' ''topi.json'' =
           (Inr (Some chosen, None),
            [(os_path_join ''raw'' chosen, os_path_join ''essentials'' chosen)])"
    using copy_file_fallback [OF absent ext, of "''essentials''"] listed some
    by (simp only: copies option.case simp_thms if_True)
  have run: "copy_file example_os ''raw'' ''essentials'' ''topi.json'' =
       (Inr (Some ''topic.json'', None), [(''raw/topic.json'', ''essentials/topic.json'')])"
    by (simp add: example_os_def os_path_join_def startswith_def copy_file_def Let_def)
  show ?thesis
    using absent ext listed some chosen run by blast
qed

text \<open>
  C10. Whenever \<open>copy_file\<close> returns, exactly one component of the pair is not \<open>None\<close>:
  the name of the file it copied, or else the target it did not find. It returns whenever
  no call to the operating system raises.
\<close>

theorem copy_file_exactly_one:
  "(copy_file os raw_dir dest_dir target_name = (Inr (a, b), copies) \<longrightarrow>
      ((a = None) \<noteq> (b = None)) \<and>
      ((\<exists>name. a = Some name \<and> b = None \<and>
                copies = [(os_path_join raw_dir name, os_path_join dest_dir name)])
       \<or> (a = None \<and> b = Some target_name \<and> copies = [])))
   \<and> ((\<forall>src dst. copy2 os src dst = None) \<and> listdir os raw_dir \<noteq> Inl OtherOSError \<longrightarrow>
        (\<exists>a b copies. copy_file os raw_dir dest_dir target_name = (Inr (a, b), copies)))"
  by (auto simp: copy_file_def Let_def split: if_splits option.splits sum.splits os_error.splits)

theorem copy_file_exactly_one_witness:
  "copy_file example_os ''raw'' ''essentials'' ''exact.json'' =
     (Inr (Some ''exact.json'', None), [(''raw/exact.json'', ''essentials/exact.json'')])
   \<and> ((Some ''exact.json'' = None) \<noteq> ((None :: string option) = None))
   \<and> (\<forall>src dst. copy2 example_os src dst = None)
   \<and> listdir example_os ''raw'' \<noteq> Inl OtherOSError"
  using copy_file_exactly_one [of example_os "''raw''" "''essentials''" "''exact.json''"
      "Some ''exact.json''" None "[(''raw/exact.json'', ''essentials/exact.json'')]"]
  by (simp add: example_os_def os_path_join_def startswith_def copy_file_def Let_def)

end
